theory Spec2Isabelle
  imports Main "HOL-Library.Word"
begin

section \<open>Memory model\<close>

text \<open>
  The file \<^verbatim>\<open>src/util/pointer.h\<close> defines three classes: \<^verbatim>\<open>Buffer<T>\<close> (the
  exclusively owned array), \<^verbatim>\<open>SharedBuffer<T>\<close> (the reference counted array) and
  \<^verbatim>\<open>IntrusiveReferenceCounted\<close>. Their behaviour depends on object identity
  (\<^verbatim>\<open>this == &buffer\<close>) and on aliasing of heap blocks, so the embedding uses an explicit
  store: objects live at object addresses, \<^verbatim>\<open>new T[n]\<close> blocks and \<^verbatim>\<open>new u32\<close> cells live at
  heap addresses. The address \<open>0\<close> is \<^verbatim>\<open>nullptr\<close>.

  Integer widths follow the LP64 and LLP64 data models of the 64-bit targets:
  \<^verbatim>\<open>size_t\<close> has 64 bits, \<^verbatim>\<open>unsigned int\<close> and \<^verbatim>\<open>u32\<close> have 32 bits.

  Every member that changes the state is modelled. The members \<^verbatim>\<open>operator*\<close> and
  \<^verbatim>\<open>operator std::string_view\<close> only read the data pointer and the size and are left
  out, as is what a caller does with the raw pointer they return. Allocation does not
  fail in the model.
\<close>

type_synonym ptr = nat
type_synonym size_t = "64 word"
type_synonym u32 = "32 word"

datatype error = AssertionFailed | InvalidMemory

text \<open>The data members of \<^verbatim>\<open>Buffer<T>\<close> (lines 128-129).\<close>

record Buffer =
  data :: ptr
  m_size :: size_t

text \<open>The data members of \<^verbatim>\<open>SharedBuffer<T>\<close> (lines 267-269).\<close>

record SharedBuffer =
  data :: ptr
  m_size :: u32
  refcount :: ptr

text \<open>
  The program state: the live \<^verbatim>\<open>Buffer\<close> and \<^verbatim>\<open>SharedBuffer\<close> objects by object address,
  the allocated arrays and counter cells by heap address, and the allocator's high-water
  mark. A freed block leaves its map; its address is never handed out again.
\<close>

record 'a state =
  bufs :: "nat \<rightharpoonup> Buffer"
  sbufs :: "nat \<rightharpoonup> SharedBuffer"
  arrays :: "ptr \<rightharpoonup> 'a list"
  cells :: "ptr \<rightharpoonup> u32"
  brk :: nat

definition init_state :: "'a state" where
  "init_state = \<lparr>bufs = Map.empty, sbufs = Map.empty, arrays = Map.empty,
     cells = Map.empty, brk = 0\<rparr>"

text \<open>\<^verbatim>\<open>new T[n]\<close> with the given initial contents: a fresh non-null address.\<close>

definition new_array :: "'a list \<Rightarrow> 'a state \<Rightarrow> ptr \<times> 'a state" where
  "new_array xs s =
     (let p = brk s + 1 in (p, s\<lparr>arrays := (arrays s)(p \<mapsto> xs), brk := p\<rparr>))"

text \<open>\<^verbatim>\<open>new u32\<close> followed by the store of its first value.\<close>

definition new_u32 :: "u32 \<Rightarrow> 'a state \<Rightarrow> ptr \<times> 'a state" where
  "new_u32 c s =
     (let p = brk s + 1 in (p, s\<lparr>cells := (cells s)(p \<mapsto> c), brk := p\<rparr>))"

text \<open>
  \<^verbatim>\<open>delete[] p\<close>: nothing for \<^verbatim>\<open>nullptr\<close>, the block is released when \<open>p\<close> is allocated,
  and anything else (a dangling pointer, a second release) is an invalid access.
\<close>

definition delete_array :: "ptr \<Rightarrow> 'a state \<Rightarrow> error + 'a state" where
  "delete_array p s =
     (if p = 0 then Inr s
      else case arrays s p of
        None \<Rightarrow> Inl InvalidMemory
      | Some xs \<Rightarrow> Inr (s\<lparr>arrays := (arrays s)(p := None)\<rparr>))"

definition delete_u32 :: "ptr \<Rightarrow> 'a state \<Rightarrow> error + 'a state" where
  "delete_u32 p s =
     (if p = 0 then Inr s
      else case cells s p of
        None \<Rightarrow> Inl InvalidMemory
      | Some c \<Rightarrow> Inr (s\<lparr>cells := (cells s)(p := None)\<rparr>))"

text \<open>
  What \<^verbatim>\<open>memcpy(dst, t, sizeof(T) * n)\<close> reads: the first \<open>n\<close> elements of the block at
  \<open>t\<close>. Reading from an address that is not allocated, or beyond the block, is an invalid
  access.
\<close>

definition memcpy_src :: "ptr \<Rightarrow> nat \<Rightarrow> 'a state \<Rightarrow> error + 'a list" where
  "memcpy_src t n s =
     (case arrays s t of
        None \<Rightarrow> Inl InvalidMemory
      | Some xs \<Rightarrow> if n \<le> length xs then Inr (take n xs) else Inl InvalidMemory)"

section \<open>Buffer\<close>

text \<open>\<^verbatim>\<open>Buffer()\<close> (lines 17-21).\<close>

definition Buffer_default :: "nat \<Rightarrow> 'a state \<Rightarrow> 'a state" where
  "Buffer_default this s =
     s\<lparr>bufs := (bufs s)(this \<mapsto> \<lparr>Buffer.data = 0, Buffer.m_size = 0\<rparr>)\<rparr>"

text \<open>
  \<^verbatim>\<open>Buffer(size_t size)\<close> (lines 22-30). The elements of \<^verbatim>\<open>new T[size]\<close> are not
  initialised; \<open>junk\<close> stands for whatever the block holds.
\<close>

definition Buffer_new :: "nat \<Rightarrow> size_t \<Rightarrow> (nat \<Rightarrow> 'a) \<Rightarrow> 'a state \<Rightarrow> 'a state" where
  "Buffer_new this sz junk s =
     (if sz \<noteq> 0 then
        (case new_array (map junk [0..<unat sz]) s of
           (p, s1) \<Rightarrow> s1\<lparr>bufs := (bufs s1)(this \<mapsto> \<lparr>Buffer.data = p, Buffer.m_size = sz\<rparr>)\<rparr>)
      else s\<lparr>bufs := (bufs s)(this \<mapsto> \<lparr>Buffer.data = 0, Buffer.m_size = sz\<rparr>)\<rparr>)"

text \<open>\<^verbatim>\<open>Buffer(Buffer &&buffer)\<close> (lines 36-46).\<close>

definition Buffer_move_ctor :: "nat \<Rightarrow> nat \<Rightarrow> 'a state \<Rightarrow> error + 'a state" where
  "Buffer_move_ctor this buffer s =
     (case bufs s buffer of
        None \<Rightarrow> Inl InvalidMemory
      | Some b \<Rightarrow>
          if Buffer.m_size b \<noteq> 0 then
            Inr (s\<lparr>bufs := (bufs s)
              (this \<mapsto> \<lparr>Buffer.data = Buffer.data b, Buffer.m_size = Buffer.m_size b\<rparr>,
               buffer \<mapsto> \<lparr>Buffer.data = 0, Buffer.m_size = 0\<rparr>)\<rparr>)
          else
            Inr (s\<lparr>bufs := (bufs s)
              (this \<mapsto> \<lparr>Buffer.data = 0, Buffer.m_size = Buffer.m_size b\<rparr>)\<rparr>))"

text \<open>\<^verbatim>\<open>Buffer(const T *t, size_t size)\<close> (lines 48-57).\<close>

definition Buffer_from_span :: "nat \<Rightarrow> ptr \<Rightarrow> size_t \<Rightarrow> 'a state \<Rightarrow> error + 'a state" where
  "Buffer_from_span this t sz s =
     (if sz \<noteq> 0 then
        (case memcpy_src t (unat sz) s of
           Inl e \<Rightarrow> Inl e
         | Inr xs \<Rightarrow>
            (case new_array xs s of
               (p, s1) \<Rightarrow>
                 Inr (s1\<lparr>bufs := (bufs s1)
                   (this \<mapsto> \<lparr>Buffer.data = p, Buffer.m_size = sz\<rparr>)\<rparr>)))
      else Inr (s\<lparr>bufs := (bufs s)(this \<mapsto> \<lparr>Buffer.data = 0, Buffer.m_size = sz\<rparr>)\<rparr>))"

text \<open>\<^verbatim>\<open>Buffer::drop()\<close> (lines 124-127): the pointer is released and kept as it is.\<close>

definition Buffer_drop :: "nat \<Rightarrow> 'a state \<Rightarrow> error + 'a state" where
  "Buffer_drop this s =
     (case bufs s this of
        None \<Rightarrow> Inl InvalidMemory
      | Some b \<Rightarrow> delete_array (Buffer.data b) s)"

text \<open>\<^verbatim>\<open>~Buffer()\<close> (lines 59-62); the object's lifetime ends.\<close>

definition Buffer_dtor :: "nat \<Rightarrow> 'a state \<Rightarrow> error + 'a state" where
  "Buffer_dtor this s =
     (case Buffer_drop this s of
        Inl e \<Rightarrow> Inl e
      | Inr s1 \<Rightarrow> Inr (s1\<lparr>bufs := (bufs s1)(this := None)\<rparr>))"

text \<open>\<^verbatim>\<open>Buffer& operator=(Buffer &&buffer)\<close> (lines 64-78).\<close>

definition Buffer_move_assign :: "nat \<Rightarrow> nat \<Rightarrow> 'a state \<Rightarrow> error + 'a state" where
  "Buffer_move_assign this buffer s =
     (if this = buffer then Inr s
      else case Buffer_drop this s of
        Inl e \<Rightarrow> Inl e
      | Inr s1 \<Rightarrow>
         (case bufs s1 buffer of
            None \<Rightarrow> Inl InvalidMemory
          | Some b \<Rightarrow>
              if Buffer.m_size b \<noteq> 0 then
                Inr (s1\<lparr>bufs := (bufs s1)
                  (this \<mapsto> \<lparr>Buffer.data = Buffer.data b, Buffer.m_size = Buffer.m_size b\<rparr>,
                   buffer \<mapsto> \<lparr>Buffer.data = 0, Buffer.m_size = 0\<rparr>)\<rparr>)
              else
                Inr (s1\<lparr>bufs := (bufs s1)
                  (this \<mapsto> \<lparr>Buffer.data = 0, Buffer.m_size = Buffer.m_size b\<rparr>)\<rparr>)))"

text \<open>
  \<^verbatim>\<open>void copyTo(Buffer &buffer) const\<close> (lines 80-90). The source's members are read
  when the statement that uses them runs: \<^verbatim>\<open>memcpy\<close> reads \<^verbatim>\<open>data\<close> after \<^verbatim>\<open>buffer.data\<close>
  has been assigned, which matters when \<open>buffer\<close> is the object itself. The new block
  holds \<open>junk\<close> until \<^verbatim>\<open>memcpy\<close> overwrites it.
\<close>

definition Buffer_copyTo :: "nat \<Rightarrow> nat \<Rightarrow> (nat \<Rightarrow> 'a) \<Rightarrow> 'a state \<Rightarrow> error + 'a state" where
  "Buffer_copyTo this buffer junk s =
     (case Buffer_drop buffer s of
        Inl e \<Rightarrow> Inl e
      | Inr s1 \<Rightarrow>
         (case bufs s1 this of
            None \<Rightarrow> Inl InvalidMemory
          | Some t \<Rightarrow>
              if Buffer.m_size t \<noteq> 0 then
                (case new_array (map junk [0..<unat (Buffer.m_size t)]) s1 of
                   (p, s2) \<Rightarrow>
                     (let s3 = s2\<lparr>bufs := (bufs s2)
                            (buffer \<mapsto> \<lparr>Buffer.data = p, Buffer.m_size = Buffer.m_size t\<rparr>)\<rparr>
                      in case bufs s3 this of
                        None \<Rightarrow> Inl InvalidMemory
                      | Some t1 \<Rightarrow>
                         (case memcpy_src (Buffer.data t1) (unat (Buffer.m_size t)) s3 of
                            Inl e \<Rightarrow> Inl e
                          | Inr xs \<Rightarrow> Inr (s3\<lparr>arrays := (arrays s3)(p \<mapsto> xs)\<rparr>))))
              else
                Inr (s1\<lparr>bufs := (bufs s1)
                  (buffer \<mapsto> \<lparr>Buffer.data = 0, Buffer.m_size = Buffer.m_size t\<rparr>)\<rparr>)))"

text \<open>
  \<^verbatim>\<open>T & operator[](size_t i) const\<close> (lines 92-95), read: no bounds check in the
  source, and an access outside the allocated block is an invalid access.
\<close>

definition Buffer_index :: "nat \<Rightarrow> size_t \<Rightarrow> 'a state \<Rightarrow> error + 'a" where
  "Buffer_index this i s =
     (case bufs s this of
        None \<Rightarrow> Inl InvalidMemory
      | Some b \<Rightarrow>
         (case arrays s (Buffer.data b) of
            None \<Rightarrow> Inl InvalidMemory
          | Some xs \<Rightarrow> if unat i < length xs then Inr (xs ! unat i) else Inl InvalidMemory))"

text \<open>\<^verbatim>\<open>size_t getSize() const\<close> (lines 101-104).\<close>

definition Buffer_getSize :: "nat \<Rightarrow> 'a state \<Rightarrow> error + size_t" where
  "Buffer_getSize this s =
     (case bufs s this of None \<Rightarrow> Inl InvalidMemory | Some b \<Rightarrow> Inr (Buffer.m_size b))"

text \<open>
  \<^verbatim>\<open>void shrinkSize(size_t new_size)\<close> (lines 114-121). The flag \<open>ndebug\<close> says whether the
  translation unit was compiled with \<^verbatim>\<open>NDEBUG\<close>, which turns \<^verbatim>\<open>assert\<close> into nothing.
\<close>

definition Buffer_shrinkSize :: "bool \<Rightarrow> nat \<Rightarrow> size_t \<Rightarrow> 'a state \<Rightarrow> error + 'a state" where
  "Buffer_shrinkSize ndebug this new_size s =
     (case bufs s this of
        None \<Rightarrow> Inl InvalidMemory
      | Some b \<Rightarrow>
          if \<not> ndebug \<and> \<not> new_size \<le> Buffer.m_size b then Inl AssertionFailed
          else if new_size \<le> Buffer.m_size b then
            Inr (s\<lparr>bufs := (bufs s)(this \<mapsto> b\<lparr>Buffer.m_size := new_size\<rparr>)\<rparr>)
          else Inr s)"

section \<open>SharedBuffer\<close>

text \<open>\<^verbatim>\<open>SharedBuffer()\<close> (lines 143-148).\<close>

definition SharedBuffer_default :: "nat \<Rightarrow> 'a state \<Rightarrow> 'a state" where
  "SharedBuffer_default this s =
     s\<lparr>sbufs := (sbufs s)(this \<mapsto> \<lparr>data = 0, m_size = 0, refcount = 0\<rparr>)\<rparr>"

text \<open>
  \<^verbatim>\<open>SharedBuffer(size_t size)\<close> (lines 150-159). The assignment \<^verbatim>\<open>m_size = size\<close> converts
  a \<^verbatim>\<open>size_t\<close> to the \<^verbatim>\<open>unsigned int\<close> member; every later use reads the member. When the
  member is zero the pointers keep their default member initialisers (lines 267-269).
  The block is filled with zeros by \<^verbatim>\<open>memset\<close>.
\<close>

definition SharedBuffer_new :: "nat \<Rightarrow> size_t \<Rightarrow> ('a::zero) state \<Rightarrow> 'a state" where
  "SharedBuffer_new this sz s =
     (let m = (ucast sz :: u32) in
      if m \<noteq> 0 then
        (case new_array (replicate (unat m) 0) s of
           (d, s1) \<Rightarrow>
             (case new_u32 1 s1 of
                (r, s2) \<Rightarrow>
                  s2\<lparr>sbufs := (sbufs s2)(this \<mapsto> \<lparr>data = d, m_size = m, refcount = r\<rparr>)\<rparr>))
      else s\<lparr>sbufs := (sbufs s)(this \<mapsto> \<lparr>data = 0, m_size = m, refcount = 0\<rparr>)\<rparr>)"

text \<open>
  \<^verbatim>\<open>SharedBuffer(const SharedBuffer &buffer)\<close> (lines 161-170). The constructor has no
  member initialiser list, so when its body starts the members hold their default
  member initialisers; the \<^verbatim>\<open>assert\<close> of line 163 reads these.
\<close>

definition SharedBuffer_copy_ctor :: "bool \<Rightarrow> nat \<Rightarrow> nat \<Rightarrow> 'a state \<Rightarrow> error + 'a state" where
  "SharedBuffer_copy_ctor ndebug this buffer s =
     (let t0 = \<lparr>data = 0, m_size = 0, refcount = 0\<rparr> in
      if \<not> ndebug \<and> \<not> (refcount t0 \<noteq> 0 \<or> (m_size t0 = 0 \<and> data t0 = 0))
      then Inl AssertionFailed
      else case sbufs s buffer of
        None \<Rightarrow> Inl InvalidMemory
      | Some b \<Rightarrow>
          (let s1 = s\<lparr>sbufs := (sbufs s)
                 (this \<mapsto> \<lparr>data = data b, m_size = m_size b, refcount = refcount b\<rparr>)\<rparr>
           in if refcount b \<noteq> 0 then
                (case cells s1 (refcount b) of
                   None \<Rightarrow> Inl InvalidMemory
                 | Some c \<Rightarrow> Inr (s1\<lparr>cells := (cells s1)(refcount b \<mapsto> c + 1)\<rparr>))
              else Inr s1))"

text \<open>\<^verbatim>\<open>SharedBuffer(SharedBuffer&& buffer)\<close> (lines 171-180).\<close>

definition SharedBuffer_move_ctor :: "nat \<Rightarrow> nat \<Rightarrow> 'a state \<Rightarrow> error + 'a state" where
  "SharedBuffer_move_ctor this buffer s =
     (case sbufs s buffer of
        None \<Rightarrow> Inl InvalidMemory
      | Some b \<Rightarrow>
          Inr (s\<lparr>sbufs := (sbufs s)
            (this \<mapsto> \<lparr>data = data b, m_size = m_size b, refcount = refcount b\<rparr>,
             buffer \<mapsto> \<lparr>data = 0, m_size = 0, refcount = 0\<rparr>)\<rparr>))"

text \<open>\<^verbatim>\<open>SharedBuffer::drop()\<close> (lines 253-265).\<close>

definition SharedBuffer_drop :: "bool \<Rightarrow> nat \<Rightarrow> 'a state \<Rightarrow> error + 'a state" where
  "SharedBuffer_drop ndebug this s =
     (case sbufs s this of
        None \<Rightarrow> Inl InvalidMemory
      | Some b \<Rightarrow>
          if refcount b = 0 then Inr s
          else case cells s (refcount b) of
            None \<Rightarrow> Inl InvalidMemory
          | Some c \<Rightarrow>
              if \<not> ndebug \<and> \<not> c > 0 then Inl AssertionFailed
              else
                (let s1 = s\<lparr>cells := (cells s)(refcount b \<mapsto> c - 1)\<rparr> in
                 if c - 1 = 0 then
                   (case delete_array (data b) s1 of
                      Inl e \<Rightarrow> Inl e
                    | Inr s2 \<Rightarrow> delete_u32 (refcount b) s2)
                 else Inr s1))"

text \<open>\<^verbatim>\<open>~SharedBuffer()\<close> (lines 217-220); the object's lifetime ends.\<close>

definition SharedBuffer_dtor :: "bool \<Rightarrow> nat \<Rightarrow> 'a state \<Rightarrow> error + 'a state" where
  "SharedBuffer_dtor ndebug this s =
     (case SharedBuffer_drop ndebug this s of
        Inl e \<Rightarrow> Inl e
      | Inr s1 \<Rightarrow> Inr (s1\<lparr>sbufs := (sbufs s1)(this := None)\<rparr>))"

text \<open>
  \<^verbatim>\<open>SharedBuffer & operator=(const SharedBuffer &buffer)\<close> (lines 182-195). It is the
  only assignment operator of the class: with a user-declared copy constructor, move
  constructor, copy assignment and destructor no move assignment is generated, so an
  assignment from an rvalue runs this function too.
\<close>

definition SharedBuffer_assign :: "bool \<Rightarrow> nat \<Rightarrow> nat \<Rightarrow> 'a state \<Rightarrow> error + 'a state" where
  "SharedBuffer_assign ndebug this buffer s =
     (if this = buffer then Inr s
      else case SharedBuffer_drop ndebug this s of
        Inl e \<Rightarrow> Inl e
      | Inr s1 \<Rightarrow>
         (case sbufs s1 buffer of
            None \<Rightarrow> Inl InvalidMemory
          | Some b \<Rightarrow>
              (let s2 = s1\<lparr>sbufs := (sbufs s1)
                     (this \<mapsto> \<lparr>data = data b, m_size = m_size b, refcount = refcount b\<rparr>)\<rparr>
               in if refcount b \<noteq> 0 then
                    (case cells s2 (refcount b) of
                       None \<Rightarrow> Inl InvalidMemory
                     | Some c \<Rightarrow> Inr (s2\<lparr>cells := (cells s2)(refcount b \<mapsto> c + 1)\<rparr>))
                  else Inr s2)))"

text \<open>
  \<^verbatim>\<open>SharedBuffer(const T *t, size_t size)\<close> (lines 198-210); \<^verbatim>\<open>memcpy\<close> copies
  \<^verbatim>\<open>m_size\<close> elements, the converted value.
\<close>

definition SharedBuffer_from_span :: "nat \<Rightarrow> ptr \<Rightarrow> size_t \<Rightarrow> 'a state \<Rightarrow> error + 'a state"
  where
  "SharedBuffer_from_span this t sz s =
     (let m = (ucast sz :: u32) in
      if m \<noteq> 0 then
        (case memcpy_src t (unat m) s of
           Inl e \<Rightarrow> Inl e
         | Inr xs \<Rightarrow>
            (case new_array xs s of
               (d, s1) \<Rightarrow>
                 (case new_u32 1 s1 of
                    (r, s2) \<Rightarrow>
                      Inr (s2\<lparr>sbufs := (sbufs s2)
                        (this \<mapsto> \<lparr>data = d, m_size = m, refcount = r\<rparr>)\<rparr>))))
      else Inr (s\<lparr>sbufs := (sbufs s)(this \<mapsto> \<lparr>data = 0, m_size = m, refcount = 0\<rparr>)\<rparr>))"

text \<open>
  \<^verbatim>\<open>SharedBuffer(const Buffer<T> &buffer)\<close> (lines 213-215), which delegates to the span
  constructor with \<^verbatim>\<open>*buffer\<close> and \<^verbatim>\<open>buffer.getSize()\<close>.
\<close>

definition SharedBuffer_from_Buffer :: "nat \<Rightarrow> nat \<Rightarrow> 'a state \<Rightarrow> error + 'a state" where
  "SharedBuffer_from_Buffer this buffer s =
     (case bufs s buffer of
        None \<Rightarrow> Inl InvalidMemory
      | Some b \<Rightarrow> SharedBuffer_from_span this (Buffer.data b) (Buffer.m_size b) s)"

text \<open>
  \<^verbatim>\<open>T & operator[](size_t i) const\<close> (lines 222-226), read: the index is checked
  against \<^verbatim>\<open>m_size\<close> by an \<^verbatim>\<open>assert\<close>.
\<close>

definition SharedBuffer_index :: "bool \<Rightarrow> nat \<Rightarrow> size_t \<Rightarrow> 'a state \<Rightarrow> error + 'a" where
  "SharedBuffer_index ndebug this i s =
     (case sbufs s this of
        None \<Rightarrow> Inl InvalidMemory
      | Some b \<Rightarrow>
          if \<not> ndebug \<and> \<not> i < ucast (m_size b) then Inl AssertionFailed
          else
           (case arrays s (data b) of
              None \<Rightarrow> Inl InvalidMemory
            | Some xs \<Rightarrow> if unat i < length xs then Inr (xs ! unat i) else Inl InvalidMemory))"

text \<open>\<^verbatim>\<open>size_t getSize() const\<close> (lines 233-236).\<close>

definition SharedBuffer_getSize :: "nat \<Rightarrow> 'a state \<Rightarrow> error + size_t" where
  "SharedBuffer_getSize this s =
     (case sbufs s this of None \<Rightarrow> Inl InvalidMemory | Some b \<Rightarrow> Inr (ucast (m_size b)))"

text \<open>
  \<^verbatim>\<open>void shrinkSize(size_t new_size)\<close> (lines 238-245). The comparison converts the
  member to \<^verbatim>\<open>size_t\<close>; the assignment converts \<open>new_size\<close> to \<^verbatim>\<open>unsigned int\<close>.
\<close>

definition SharedBuffer_shrinkSize ::
  "bool \<Rightarrow> nat \<Rightarrow> size_t \<Rightarrow> 'a state \<Rightarrow> error + 'a state" where
  "SharedBuffer_shrinkSize ndebug this new_size s =
     (case sbufs s this of
        None \<Rightarrow> Inl InvalidMemory
      | Some b \<Rightarrow>
          if \<not> ndebug \<and> \<not> new_size \<le> ucast (m_size b) then Inl AssertionFailed
          else if new_size \<le> ucast (m_size b) then
            Inr (s\<lparr>sbufs := (sbufs s)(this \<mapsto> b\<lparr>m_size := ucast new_size\<rparr>)\<rparr>)
          else Inr s)"

text \<open>
  \<^verbatim>\<open>operator Buffer<T>() const\<close> (lines 247-250): the \<^verbatim>\<open>Buffer\<close> is constructed at the
  object address \<open>dest\<close>.
\<close>

definition SharedBuffer_to_Buffer :: "nat \<Rightarrow> nat \<Rightarrow> 'a state \<Rightarrow> error + 'a state" where
  "SharedBuffer_to_Buffer this dest s =
     (case sbufs s this of
        None \<Rightarrow> Inl InvalidMemory
      | Some b \<Rightarrow> Buffer_from_span dest (data b) (ucast (m_size b)) s)"

section \<open>IntrusiveReferenceCounted\<close>

text \<open>The class of lines 273-283; an object starts with \<^verbatim>\<open>m_refcount = 1\<close>.\<close>

record IntrusiveReferenceCounted =
  m_refcount :: u32

definition IntrusiveReferenceCounted_new :: IntrusiveReferenceCounted where
  "IntrusiveReferenceCounted_new = \<lparr>m_refcount = 1\<rparr>"

text \<open>\<^verbatim>\<open>void grab()\<close> (line 277).\<close>

definition grab :: "IntrusiveReferenceCounted \<Rightarrow> IntrusiveReferenceCounted" where
  "grab obj = obj\<lparr>m_refcount := m_refcount obj + 1\<rparr>"

text \<open>
  \<^verbatim>\<open>void drop()\<close> (line 278): \<open>None\<close> is the object after \<^verbatim>\<open>delete this\<close>.
\<close>

definition IntrusiveReferenceCounted_drop ::
  "IntrusiveReferenceCounted \<Rightarrow> IntrusiveReferenceCounted option" where
  "IntrusiveReferenceCounted_drop obj =
     (let obj1 = obj\<lparr>m_refcount := m_refcount obj - 1\<rparr> in
      if m_refcount obj1 = 0 then None else Some obj1)"

text \<open>
  A caller's use of one object: a sequence of \<^verbatim>\<open>grab()\<close> and \<^verbatim>\<open>drop()\<close> calls. A call on
  an object that has deleted itself is an invalid access, and the sequence stops there.
\<close>

datatype call = Grab | Drop

fun IntrusiveReferenceCounted_call ::
  "call \<Rightarrow> IntrusiveReferenceCounted option \<Rightarrow> error + IntrusiveReferenceCounted option"
  where
  "IntrusiveReferenceCounted_call c None = Inl InvalidMemory"
| "IntrusiveReferenceCounted_call Grab (Some obj) = Inr (Some (grab obj))"
| "IntrusiveReferenceCounted_call Drop (Some obj) = Inr (IntrusiveReferenceCounted_drop obj)"

fun calls ::
  "call list \<Rightarrow> IntrusiveReferenceCounted option \<Rightarrow> error + IntrusiveReferenceCounted option"
  where
  "calls [] obj = Inr obj"
| "calls (c # cs) obj =
     (case IntrusiveReferenceCounted_call c obj of
        Inl e \<Rightarrow> Inl e
      | Inr obj1 \<Rightarrow> calls cs obj1)"

text \<open>
  The holders' discipline of the specification: no holder releases more often than it
  acquired. With \<open>k\<close> acquired references outstanding (the creator's own reference
  not counted), a sequence is disciplined when none of its releases finds \<open>k = 0\<close>.
\<close>

fun disciplined :: "nat \<Rightarrow> call list \<Rightarrow> bool" where
  "disciplined k [] = True"
| "disciplined k (Grab # cs) = disciplined (Suc k) cs"
| "disciplined k (Drop # cs) = (0 < k \<and> disciplined (k - 1) cs)"

section \<open>Executions\<close>

text \<open>
  \<^verbatim>\<open>T & operator[](size_t i) const\<close> used as the target of an assignment,
  \<^verbatim>\<open>buffer[i] = v\<close>, for \<^verbatim>\<open>Buffer\<close> (lines 92-95) and for \<^verbatim>\<open>SharedBuffer\<close> (lines 222-226).
\<close>

definition Buffer_index_set :: "nat \<Rightarrow> size_t \<Rightarrow> 'a \<Rightarrow> 'a state \<Rightarrow> error + 'a state" where
  "Buffer_index_set this i v s =
     (case bufs s this of
        None \<Rightarrow> Inl InvalidMemory
      | Some b \<Rightarrow>
         (case arrays s (Buffer.data b) of
            None \<Rightarrow> Inl InvalidMemory
          | Some xs \<Rightarrow>
              if unat i < length xs
              then Inr (s\<lparr>arrays := (arrays s)(Buffer.data b \<mapsto> xs[unat i := v])\<rparr>)
              else Inl InvalidMemory))"

definition SharedBuffer_index_set ::
  "bool \<Rightarrow> nat \<Rightarrow> size_t \<Rightarrow> 'a \<Rightarrow> 'a state \<Rightarrow> error + 'a state" where
  "SharedBuffer_index_set ndebug this i v s =
     (case sbufs s this of
        None \<Rightarrow> Inl InvalidMemory
      | Some b \<Rightarrow>
          if \<not> ndebug \<and> \<not> i < ucast (m_size b) then Inl AssertionFailed
          else
           (case arrays s (data b) of
              None \<Rightarrow> Inl InvalidMemory
            | Some xs \<Rightarrow>
                if unat i < length xs
                then Inr (s\<lparr>arrays := (arrays s)(data b \<mapsto> xs[unat i := v])\<rparr>)
                else Inl InvalidMemory))"

text \<open>
  One step of a single-threaded program that uses the two buffer classes through their
  public members: a constructor runs on storage that holds no live object of the class,
  every other member runs as the source defines it, and a call that ends in an error
  makes no step. The flag \<open>ndebug\<close> is that of the build.
\<close>

inductive step :: "bool \<Rightarrow> ('a::zero) state \<Rightarrow> 'a state \<Rightarrow> bool" for ndebug :: bool where
  SharedBuffer_default_step:
    "sbufs s this = None \<Longrightarrow> step ndebug s (SharedBuffer_default this s)"
| SharedBuffer_new_step:
    "sbufs s this = None \<Longrightarrow> step ndebug s (SharedBuffer_new this n s)"
| SharedBuffer_copy_ctor_step:
    "sbufs s this = None \<Longrightarrow> SharedBuffer_copy_ctor ndebug this buffer s = Inr s' \<Longrightarrow>
     step ndebug s s'"
| SharedBuffer_move_ctor_step:
    "sbufs s this = None \<Longrightarrow> SharedBuffer_move_ctor this buffer s = Inr s' \<Longrightarrow>
     step ndebug s s'"
| SharedBuffer_assign_step:
    "SharedBuffer_assign ndebug this buffer s = Inr s' \<Longrightarrow> step ndebug s s'"
| SharedBuffer_from_span_step:
    "sbufs s this = None \<Longrightarrow> SharedBuffer_from_span this t n s = Inr s' \<Longrightarrow>
     step ndebug s s'"
| SharedBuffer_from_Buffer_step:
    "sbufs s this = None \<Longrightarrow> SharedBuffer_from_Buffer this buffer s = Inr s' \<Longrightarrow>
     step ndebug s s'"
| SharedBuffer_dtor_step:
    "SharedBuffer_dtor ndebug this s = Inr s' \<Longrightarrow> step ndebug s s'"
| SharedBuffer_shrinkSize_step:
    "SharedBuffer_shrinkSize ndebug this n s = Inr s' \<Longrightarrow> step ndebug s s'"
| SharedBuffer_index_set_step:
    "SharedBuffer_index_set ndebug this i v s = Inr s' \<Longrightarrow> step ndebug s s'"
| SharedBuffer_to_Buffer_step:
    "bufs s dest = None \<Longrightarrow> SharedBuffer_to_Buffer this dest s = Inr s' \<Longrightarrow>
     step ndebug s s'"
| Buffer_default_step:
    "bufs s this = None \<Longrightarrow> step ndebug s (Buffer_default this s)"
| Buffer_new_step:
    "bufs s this = None \<Longrightarrow> step ndebug s (Buffer_new this n junk s)"
| Buffer_move_ctor_step:
    "bufs s this = None \<Longrightarrow> Buffer_move_ctor this buffer s = Inr s' \<Longrightarrow>
     step ndebug s s'"
| Buffer_from_span_step:
    "bufs s this = None \<Longrightarrow> Buffer_from_span this t n s = Inr s' \<Longrightarrow>
     step ndebug s s'"
| Buffer_dtor_step:
    "Buffer_dtor this s = Inr s' \<Longrightarrow> step ndebug s s'"
| Buffer_move_assign_step:
    "Buffer_move_assign this buffer s = Inr s' \<Longrightarrow> step ndebug s s'"
| Buffer_copyTo_step:
    "Buffer_copyTo this buffer junk s = Inr s' \<Longrightarrow> step ndebug s s'"
| Buffer_shrinkSize_step:
    "Buffer_shrinkSize ndebug this n s = Inr s' \<Longrightarrow> step ndebug s s'"
| Buffer_index_set_step:
    "Buffer_index_set this i v s = Inr s' \<Longrightarrow> step ndebug s s'"

text \<open>
  The states a program reaches from the empty state while at most \<open>N\<close>
  \<^verbatim>\<open>SharedBuffer\<close> objects are alive at any time.
\<close>

inductive reachable :: "bool \<Rightarrow> nat \<Rightarrow> ('a::zero) state \<Rightarrow> bool"
  for ndebug :: bool and N :: nat where
  reachable_init: "reachable ndebug N init_state"
| reachable_step:
    "reachable ndebug N s \<Longrightarrow> step ndebug s s' \<Longrightarrow> card (dom (sbufs s')) \<le> N \<Longrightarrow>
     reachable ndebug N s'"

text \<open>The live \<^verbatim>\<open>SharedBuffer\<close> objects whose counter pointer is \<open>r\<close>.\<close>

definition holders :: "'a state \<Rightarrow> ptr \<Rightarrow> nat set" where
  "holders s r = {i. \<exists>b. sbufs s i = Some b \<and> refcount b = r}"

text \<open>Every allocated address is non-null and at most the allocator's mark.\<close>

definition heap_ok :: "'a state \<Rightarrow> bool" where
  "heap_ok s \<longleftrightarrow>
     (\<forall>p. arrays s p \<noteq> None \<longrightarrow> 0 < p \<and> p \<le> brk s) \<and>
     (\<forall>p. cells s p \<noteq> None \<longrightarrow> 0 < p \<and> p \<le> brk s)"

text \<open>
  The \<^verbatim>\<open>SharedBuffer\<close> objects: finitely many; an object without counter has no data and
  size 0; an object with a counter has an allocated array and an allocated counter cell
  whose value is the number of holders; two objects with counters share the counter
  exactly when they share the array.
\<close>

definition shared_ok :: "'a state \<Rightarrow> bool" where
  "shared_ok s \<longleftrightarrow>
     finite (dom (sbufs s)) \<and>
     (\<forall>i b. sbufs s i = Some b \<longrightarrow> refcount b = 0 \<longrightarrow> data b = 0 \<and> m_size b = 0) \<and>
     (\<forall>i b. sbufs s i = Some b \<longrightarrow> refcount b \<noteq> 0 \<longrightarrow>
        data b \<noteq> 0 \<and> arrays s (data b) \<noteq> None \<and>
        (\<exists>c. cells s (refcount b) = Some c \<and> unat c = card (holders s (refcount b)))) \<and>
     (\<forall>i j b b'. sbufs s i = Some b \<longrightarrow> sbufs s j = Some b' \<longrightarrow>
        refcount b \<noteq> 0 \<longrightarrow> refcount b' \<noteq> 0 \<longrightarrow>
        (refcount b = refcount b') = (data b = data b'))"

text \<open>
  The \<^verbatim>\<open>Buffer\<close> objects: a non-null data pointer is an allocated array that no other
  \<^verbatim>\<open>Buffer\<close> and no \<^verbatim>\<open>SharedBuffer\<close> points to.
\<close>

definition buffers_ok :: "'a state \<Rightarrow> bool" where
  "buffers_ok s \<longleftrightarrow>
     (\<forall>i b. bufs s i = Some b \<longrightarrow> Buffer.data b \<noteq> 0 \<longrightarrow>
        arrays s (Buffer.data b) \<noteq> None) \<and>
     (\<forall>i j b b'. bufs s i = Some b \<longrightarrow> bufs s j = Some b' \<longrightarrow> Buffer.data b \<noteq> 0 \<longrightarrow>
        Buffer.data b = Buffer.data b' \<longrightarrow> i = j) \<and>
     (\<forall>i j b b'. bufs s i = Some b \<longrightarrow> sbufs s j = Some b' \<longrightarrow> Buffer.data b \<noteq> 0 \<longrightarrow>
        Buffer.data b \<noteq> data b')"

definition state_ok :: "'a state \<Rightarrow> bool" where
  "state_ok s \<longleftrightarrow> heap_ok s \<and> shared_ok s \<and> buffers_ok s"

section \<open>Example states\<close>

type_synonym u8 = "8 word"

text \<open>One \<^verbatim>\<open>SharedBuffer<u8>\<close> of three elements at object address 0, sole holder.\<close>

definition ex_one_holder :: "u8 state" where
  "ex_one_holder = \<lparr>bufs = Map.empty,
     sbufs = [0 \<mapsto> \<lparr>data = 1, m_size = 3, refcount = 2\<rparr>],
     arrays = [1 \<mapsto> [0, 0, 0]], cells = [2 \<mapsto> 1], brk = 2\<rparr>"

text \<open>The same allocation held by the objects 0 and 1.\<close>

definition ex_two_holders :: "u8 state" where
  "ex_two_holders = \<lparr>bufs = Map.empty,
     sbufs = [0 \<mapsto> \<lparr>data = 1, m_size = 3, refcount = 2\<rparr>,
              1 \<mapsto> \<lparr>data = 1, m_size = 3, refcount = 2\<rparr>],
     arrays = [1 \<mapsto> [0, 0, 0]], cells = [2 \<mapsto> 2], brk = 2\<rparr>"

text \<open>A \<^verbatim>\<open>Buffer<u8>\<close> and a \<^verbatim>\<open>SharedBuffer<u8>\<close> of three elements each.\<close>

definition ex_both :: "u8 state" where
  "ex_both = \<lparr>bufs = [0 \<mapsto> \<lparr>Buffer.data = 1, Buffer.m_size = 3\<rparr>],
     sbufs = [0 \<mapsto> \<lparr>data = 2, m_size = 3, refcount = 3\<rparr>],
     arrays = [1 \<mapsto> [7, 8, 9], 2 \<mapsto> [0, 0, 0]], cells = [3 \<mapsto> 1], brk = 3\<rparr>"

text \<open>The state \<open>ex_both\<close> after \<^verbatim>\<open>shrinkSize(0)\<close> on its \<^verbatim>\<open>Buffer\<close>.\<close>

definition ex_shrunk :: "u8 state" where
  "ex_shrunk = \<lparr>bufs = [0 \<mapsto> \<lparr>Buffer.data = 1, Buffer.m_size = 0\<rparr>],
     sbufs = [0 \<mapsto> \<lparr>data = 2, m_size = 3, refcount = 3\<rparr>],
     arrays = [1 \<mapsto> [7, 8, 9], 2 \<mapsto> [0, 0, 0]], cells = [3 \<mapsto> 1], brk = 3\<rparr>"

text \<open>Two \<^verbatim>\<open>Buffer<u8>\<close> objects, each owning its block.\<close>

definition ex_two_buffers :: "u8 state" where
  "ex_two_buffers = \<lparr>bufs = [0 \<mapsto> \<lparr>Buffer.data = 1, Buffer.m_size = 3\<rparr>,
                               1 \<mapsto> \<lparr>Buffer.data = 2, Buffer.m_size = 2\<rparr>],
     sbufs = Map.empty,
     arrays = [1 \<mapsto> [7, 8, 9], 2 \<mapsto> [5, 6]], cells = Map.empty, brk = 2\<rparr>"

text \<open>
  A \<^verbatim>\<open>SharedBuffer\<close> object in a corrupted state: three elements, a data pointer, and no
  counter.
\<close>

definition ex_corrupt :: "u8 state" where
  "ex_corrupt = \<lparr>bufs = Map.empty,
     sbufs = [0 \<mapsto> \<lparr>data = 1, m_size = 3, refcount = 0\<rparr>],
     arrays = [1 \<mapsto> [0, 0, 0]], cells = Map.empty, brk = 1\<rparr>"

text \<open>A \<^verbatim>\<open>Buffer<u8>\<close> of \<open>2\<^sup>3\<^sup>2\<close> elements, as \<^verbatim>\<open>Buffer<u8>(4294967296)\<close> builds it.\<close>

definition ex_huge :: "u8 state" where
  "ex_huge = \<lparr>bufs = [0 \<mapsto> \<lparr>Buffer.data = 1, Buffer.m_size = 4294967296\<rparr>],
     sbufs = Map.empty,
     arrays = [1 \<mapsto> map (\<lambda>i. 0) [0..<4294967296]], cells = Map.empty, brk = 1\<rparr>"

text \<open>
  One allocation of one element, held by the \<^verbatim>\<open>SharedBuffer\<close> objects \<open>0, \<dots>, n\<close>:
  object 0 made by \<^verbatim>\<open>SharedBuffer<u8>(1)\<close>, the others copy-constructed from it.
\<close>

definition crowd :: "nat \<Rightarrow> u8 state" where
  "crowd n = \<lparr>bufs = Map.empty,
     sbufs = (\<lambda>i. if i \<le> n then Some \<lparr>data = 1, m_size = 1, refcount = 2\<rparr> else None),
     arrays = [1 \<mapsto> [0]], cells = [2 \<mapsto> of_nat (Suc n)], brk = 2\<rparr>"

section \<open>Basic facts\<close>

lemma SharedBuffer_eta [simp]:
  "\<lparr>data = data b, m_size = m_size b, refcount = refcount b\<rparr> = (b :: SharedBuffer)"
  by (cases b) simp

lemma Buffer_eta [simp]:
  "\<lparr>Buffer.data = Buffer.data b, Buffer.m_size = Buffer.m_size b\<rparr> = (b :: Buffer)"
  by (cases b) simp

lemma replicate_3: "replicate 3 x = [x, x, x]"
  by (simp add: numeral_3_eq_3)

lemma upt_3: "[0..<3] = [0, 1, 2]"
  by (simp add: numeral_3_eq_3 del: One_nat_def)

lemma two_32_u32: "(4294967296 :: u32) = 0"
  by simp

lemma unat_ucast_up: "unat (ucast (m :: u32) :: size_t) = unat m"
  by transfer simp

lemma unat_ucast_down: "unat (ucast (n :: size_t) :: u32) = unat n mod 2 ^ 32"
  by (simp add: unsigned_ucast_eq take_bit_eq_mod)

lemma ucast_down_up:
  fixes n :: size_t and m :: u32
  assumes "n \<le> ucast m"
  shows "(ucast (ucast n :: u32) :: size_t) = n"
proof -
  have "unat n \<le> unat (ucast m :: size_t)"
    using assms by (simp add: word_le_nat_alt)
  also have "unat (ucast m :: size_t) = unat m"
    by (rule unat_ucast_up)
  also have "unat m < 2 ^ 32"
    using unsigned_less [of m] by simp
  finally have "unat n < 2 ^ 32" .
  then show ?thesis
    by (simp add: word_unat_eq_iff unat_ucast_up unat_ucast_down)
qed

text \<open>The example states are what the constructors build from the empty program state.\<close>

lemma ex_one_holder_built: "SharedBuffer_new 0 3 init_state = ex_one_holder"
  by (simp add: SharedBuffer_new_def init_state_def new_array_def new_u32_def
      ex_one_holder_def Let_def replicate_3 del: One_nat_def)

lemma ex_two_holders_built:
  "SharedBuffer_copy_ctor False 1 0 ex_one_holder = Inr ex_two_holders"
  by (simp add: SharedBuffer_copy_ctor_def ex_one_holder_def ex_two_holders_def
      del: One_nat_def)

lemma ex_both_built:
  "SharedBuffer_new 0 3 (Buffer_new 0 3 (\<lambda>i. 7 + of_nat i) init_state) = ex_both"
  by (simp add: SharedBuffer_new_def Buffer_new_def init_state_def new_array_def new_u32_def
      ex_both_def Let_def replicate_3 upt_3 del: One_nat_def)

lemma ex_huge_built: "Buffer_new 0 4294967296 (\<lambda>i. 0) init_state = ex_huge"
  by (simp add: Buffer_new_def init_state_def new_array_def ex_huge_def del: One_nat_def)



section \<open>shrinkSize\<close>

text \<open>
  Claim C7. For \<^verbatim>\<open>Buffer\<close> and for \<^verbatim>\<open>SharedBuffer\<close>, \<^verbatim>\<open>shrinkSize(new_size)\<close> on an
  object whose current size is \<open>cur\<close>: when \<open>new_size \<le> cur\<close> the call succeeds, with or
  without \<^verbatim>\<open>NDEBUG\<close>, and the resulting state differs from the old one in the object's
  \<^verbatim>\<open>m_size\<close> member only, which is \<open>new_size\<close> (so no block is allocated, released or
  written, and the data pointer is kept); when \<open>cur < new_size\<close> the call is an assertion
  failure in a build with assertions and leaves the state unchanged under \<^verbatim>\<open>NDEBUG\<close>.
\<close>

theorem shrinkSize_contract:
  "(Buffer_getSize this s = Inr cur \<longrightarrow>
      (new_size \<le> cur \<longrightarrow>
         (\<exists>b. bufs s this = Some b \<and>
            Buffer_shrinkSize ndebug this new_size s =
              Inr (s\<lparr>bufs := (bufs s)(this \<mapsto> b\<lparr>Buffer.m_size := new_size\<rparr>)\<rparr>) \<and>
            Buffer_getSize this
              (s\<lparr>bufs := (bufs s)(this \<mapsto> b\<lparr>Buffer.m_size := new_size\<rparr>)\<rparr>) =
              Inr new_size)) \<and>
      (cur < new_size \<longrightarrow>
         Buffer_shrinkSize False this new_size s = Inl AssertionFailed \<and>
         Buffer_shrinkSize True this new_size s = Inr s)) \<and>
   (SharedBuffer_getSize this s = Inr cur \<longrightarrow>
      (new_size \<le> cur \<longrightarrow>
         (\<exists>b. sbufs s this = Some b \<and>
            SharedBuffer_shrinkSize ndebug this new_size s =
              Inr (s\<lparr>sbufs := (sbufs s)(this \<mapsto> b\<lparr>m_size := ucast new_size\<rparr>)\<rparr>) \<and>
            SharedBuffer_getSize this
              (s\<lparr>sbufs := (sbufs s)(this \<mapsto> b\<lparr>m_size := ucast new_size\<rparr>)\<rparr>) =
              Inr new_size)) \<and>
      (cur < new_size \<longrightarrow>
         SharedBuffer_shrinkSize False this new_size s = Inl AssertionFailed \<and>
         SharedBuffer_shrinkSize True this new_size s = Inr s))"
  by (auto simp: Buffer_getSize_def Buffer_shrinkSize_def SharedBuffer_getSize_def
      SharedBuffer_shrinkSize_def ucast_down_up split: option.splits)

theorem shrinkSize_contract_witness:
  "Buffer_getSize 0 ex_both = Inr 3 \<and>
   Buffer_shrinkSize False 0 2 ex_both =
     Inr (ex_both\<lparr>bufs := [0 \<mapsto> \<lparr>Buffer.data = 1, Buffer.m_size = 2\<rparr>]\<rparr>) \<and>
   Buffer_shrinkSize False 0 5 ex_both = Inl AssertionFailed \<and>
   Buffer_shrinkSize True 0 5 ex_both = Inr ex_both \<and>
   SharedBuffer_getSize 0 ex_both = Inr 3 \<and>
   SharedBuffer_shrinkSize False 0 2 ex_both =
     Inr (ex_both\<lparr>sbufs := [0 \<mapsto> \<lparr>data = 2, m_size = 2, refcount = 3\<rparr>]\<rparr>) \<and>
   SharedBuffer_shrinkSize False 0 5 ex_both = Inl AssertionFailed \<and>
   SharedBuffer_shrinkSize True 0 5 ex_both = Inr ex_both"
proof -
  have g: "Buffer_getSize 0 ex_both = Inr 3" "SharedBuffer_getSize 0 ex_both = Inr 3"
    by (simp_all add: Buffer_getSize_def SharedBuffer_getSize_def ex_both_def)
  have le: "(2 :: size_t) \<le> 3" "(3 :: size_t) < 5"
    by simp_all
  show ?thesis
    using g le shrinkSize_contract [of 0 ex_both 3 2 False]
      shrinkSize_contract [of 0 ex_both 3 5 False]
    by (simp add: ex_both_def)
qed

text \<open>
  Claim C1, as stated: a \<^verbatim>\<open>shrinkSize\<close> through one holder changes the size that every
  holder of the allocation observes. It fails: \<^verbatim>\<open>m_size\<close> is a member of each
  \<^verbatim>\<open>SharedBuffer\<close> object (line 268), not part of the shared allocation. After object 1
  is copy-constructed from object 0, shrinking object 0 to one element leaves object 1
  at three elements.
\<close>

theorem shrinkSize_shared_counterexample:
  "SharedBuffer_copy_ctor False 1 0 (SharedBuffer_new 0 3 init_state) = Inr ex_two_holders \<and>
   SharedBuffer_shrinkSize False 0 1 ex_two_holders =
     Inr (ex_two_holders\<lparr>sbufs := (sbufs ex_two_holders)
            (0 \<mapsto> \<lparr>data = 1, m_size = 1, refcount = 2\<rparr>)\<rparr>) \<and>
   SharedBuffer_getSize 0
     (ex_two_holders\<lparr>sbufs := (sbufs ex_two_holders)
            (0 \<mapsto> \<lparr>data = 1, m_size = 1, refcount = 2\<rparr>)\<rparr>) = Inr 1 \<and>
   SharedBuffer_getSize 1
     (ex_two_holders\<lparr>sbufs := (sbufs ex_two_holders)
            (0 \<mapsto> \<lparr>data = 1, m_size = 1, refcount = 2\<rparr>)\<rparr>) = Inr 3"
  by (simp add: ex_one_holder_built ex_two_holders_built SharedBuffer_shrinkSize_def
      SharedBuffer_getSize_def ex_two_holders_def del: One_nat_def)

text \<open>
  Claim C1, amended: \<^verbatim>\<open>shrinkSize(new_size)\<close> with \<open>new_size\<close> at most the current
  size, called through one \<^verbatim>\<open>SharedBuffer\<close>, sets the size observed through that object
  to \<open>new_size\<close>; every other object, the holders of the same allocation among them,
  keeps its members and the size it observes, and the arrays and counters are unchanged.
\<close>

theorem shrinkSize_shared_local:
  assumes "sbufs s this = Some b" and "new_size \<le> ucast (m_size b)"
  shows "\<exists>s'. SharedBuffer_shrinkSize ndebug this new_size s = Inr s' \<and>
      SharedBuffer_getSize this s' = Inr new_size \<and>
      (\<forall>other. other \<noteq> this \<longrightarrow>
         sbufs s' other = sbufs s other \<and>
         SharedBuffer_getSize other s' = SharedBuffer_getSize other s) \<and>
      arrays s' = arrays s \<and> cells s' = cells s"
  using assms
  by (auto simp: SharedBuffer_getSize_def SharedBuffer_shrinkSize_def ucast_down_up
      split: option.splits)

theorem shrinkSize_shared_local_witness:
  "sbufs ex_two_holders 1 = Some \<lparr>data = 1, m_size = 3, refcount = 2\<rparr> \<and>
   (2 :: size_t) \<le> ucast (3 :: u32) \<and>
   (\<exists>s'. SharedBuffer_shrinkSize False 1 2 ex_two_holders = Inr s' \<and>
      SharedBuffer_getSize 1 s' = Inr 2 \<and>
      sbufs s' 0 = Some \<lparr>data = 1, m_size = 3, refcount = 2\<rparr> \<and>
      SharedBuffer_getSize 0 s' = Inr 3)"
proof -
  have b: "sbufs ex_two_holders 1 = Some \<lparr>data = 1, m_size = 3, refcount = 2\<rparr>"
    by (simp add: ex_two_holders_def)
  have le: "(2 :: size_t) \<le> ucast (m_size \<lparr>data = 1, m_size = 3, refcount = 2\<rparr>)"
    by simp
  have o: "sbufs ex_two_holders 0 = Some \<lparr>data = 1, m_size = 3, refcount = 2\<rparr>"
    "SharedBuffer_getSize 0 ex_two_holders = Inr 3"
    by (simp_all add: ex_two_holders_def SharedBuffer_getSize_def)
  from shrinkSize_shared_local [OF b le, of False] obtain s' where
    "SharedBuffer_shrinkSize False 1 2 ex_two_holders = Inr s'"
    "SharedBuffer_getSize 1 s' = Inr 2"
    "\<forall>other. other \<noteq> 1 \<longrightarrow> sbufs s' other = sbufs ex_two_holders other \<and>
       SharedBuffer_getSize other s' = SharedBuffer_getSize other ex_two_holders"
    by blast
  then show ?thesis
    using b o by auto
qed

section \<open>Moving and assigning a SharedBuffer\<close>




section \<open>Self-assignment of a SharedBuffer\<close>

text \<open>
  Claim C10. Copy-assigning a \<^verbatim>\<open>SharedBuffer\<close> to itself returns at the identity test of
  line 184: the call succeeds and the whole program state is as before, so the object's
  size, its data pointer and the counter's value are unchanged and no block is released,
  whatever the counter's value.
\<close>

theorem SharedBuffer_self_assign_noop:
  "SharedBuffer_assign ndebug this this s = Inr s"
  by (simp add: SharedBuffer_assign_def)

theorem SharedBuffer_self_assign_noop_witness:
  "SharedBuffer_assign False 0 0 ex_one_holder = Inr ex_one_holder \<and>
   cells ex_one_holder 2 = Some 1 \<and>
   sbufs ex_one_holder 0 = Some \<lparr>data = 1, m_size = 3, refcount = 2\<rparr> \<and>
   arrays ex_one_holder 1 = Some [0, 0, 0]"
  using SharedBuffer_self_assign_noop [of False 0 ex_one_holder]
  by (simp add: ex_one_holder_def)

section \<open>Moving a Buffer\<close>

lemma Buffer_move_ctor_effect:
  assumes "bufs s buffer = Some b" and "this \<noteq> buffer"
  shows "\<exists>s'. Buffer_move_ctor this buffer s = Inr s' \<and>
      Buffer_getSize buffer s' = Inr 0 \<and>
      (Buffer.m_size b \<noteq> 0 \<longrightarrow>
         bufs s' buffer = Some \<lparr>Buffer.data = 0, Buffer.m_size = 0\<rparr>) \<and>
      (Buffer.m_size b = 0 \<longrightarrow> bufs s' buffer = Some b) \<and>
      bufs s' this =
        Some \<lparr>Buffer.data = (if Buffer.m_size b = 0 then 0 else Buffer.data b),
              Buffer.m_size = Buffer.m_size b\<rparr> \<and>
      Buffer_getSize this s' = Inr (Buffer.m_size b) \<and>
      (\<forall>i. i < Buffer.m_size b \<longrightarrow> Buffer_index this i s' = Buffer_index buffer i s) \<and>
      arrays s' = arrays s \<and>
      ((Buffer.m_size b = 0 \<longrightarrow> Buffer.data b = 0 \<or> arrays s (Buffer.data b) \<noteq> None) \<longrightarrow>
        (\<exists>s''. Buffer_dtor buffer s' = Inr s'' \<and> bufs s'' this = bufs s' this \<and>
           (\<forall>i. i < Buffer.m_size b \<longrightarrow>
              Buffer_index this i s'' = Buffer_index buffer i s)))"
  using assms
  by (cases "Buffer.m_size b = 0")
     (auto simp: Buffer_move_ctor_def Buffer_getSize_def Buffer_index_def Buffer_dtor_def
        Buffer_drop_def delete_array_def split: option.splits)

lemma Buffer_move_assign_effect:
  assumes "bufs s buffer = Some b" and "bufs s this = Some t" and "this \<noteq> buffer"
    and "Buffer.data t = 0 \<or> arrays s (Buffer.data t) \<noteq> None"
    and "Buffer.data t = 0 \<or> Buffer.data t \<noteq> Buffer.data b"
  shows "\<exists>s'. Buffer_move_assign this buffer s = Inr s' \<and>
      Buffer_getSize buffer s' = Inr 0 \<and>
      (Buffer.m_size b \<noteq> 0 \<longrightarrow>
         bufs s' buffer = Some \<lparr>Buffer.data = 0, Buffer.m_size = 0\<rparr>) \<and>
      (Buffer.m_size b = 0 \<longrightarrow> bufs s' buffer = Some b) \<and>
      bufs s' this =
        Some \<lparr>Buffer.data = (if Buffer.m_size b = 0 then 0 else Buffer.data b),
              Buffer.m_size = Buffer.m_size b\<rparr> \<and>
      Buffer_getSize this s' = Inr (Buffer.m_size b) \<and>
      (\<forall>i. i < Buffer.m_size b \<longrightarrow> Buffer_index this i s' = Buffer_index buffer i s) \<and>
      arrays s' =
        (if Buffer.data t = 0 then arrays s else (arrays s)(Buffer.data t := None)) \<and>
      ((Buffer.m_size b = 0 \<longrightarrow> Buffer.data b = 0 \<or> arrays s (Buffer.data b) \<noteq> None) \<longrightarrow>
        (\<exists>s''. Buffer_dtor buffer s' = Inr s'' \<and> bufs s'' this = bufs s' this \<and>
           (\<forall>i. i < Buffer.m_size b \<longrightarrow>
              Buffer_index this i s'' = Buffer_index buffer i s)))"
  using assms
  by (cases "Buffer.m_size b = 0")
     (auto simp: Buffer_move_assign_def Buffer_getSize_def Buffer_index_def Buffer_dtor_def
        Buffer_drop_def delete_array_def split: option.splits)

text \<open>
  Claim C6, as stated: after a move the source has size 0 and no data. It fails for a
  source of size 0 that still owns a block: the move constructor and the move
  assignment take the \<^verbatim>\<open>else\<close> branch (lines 43-45, 74-76), which gives the destination
  \<^verbatim>\<open>nullptr\<close> and does not touch the source. Such a source is what \<^verbatim>\<open>shrinkSize(0)\<close>
  leaves: object 0 of \<open>ex_shrunk\<close> keeps its data pointer 1, and its block, after
  object 1 is move-constructed from it.
\<close>

theorem Buffer_move_counterexample:
  "Buffer_shrinkSize False 0 0 ex_both = Inr ex_shrunk \<and>
   Buffer_move_ctor 1 0 ex_shrunk =
     Inr (ex_shrunk\<lparr>bufs := [0 \<mapsto> \<lparr>Buffer.data = 1, Buffer.m_size = 0\<rparr>,
                              1 \<mapsto> \<lparr>Buffer.data = 0, Buffer.m_size = 0\<rparr>]\<rparr>) \<and>
   arrays ex_shrunk 1 = Some [7, 8, 9]"
  by (simp add: Buffer_shrinkSize_def Buffer_move_ctor_def ex_both_def ex_shrunk_def
      del: One_nat_def)

text \<open>
  Claim C6, amended. Let \<open>buffer\<close> be a live \<^verbatim>\<open>Buffer\<close> with members \<open>b\<close> and \<open>this\<close>
  another object. Move construction of \<open>this\<close> from \<open>buffer\<close> succeeds; move assignment
  succeeds when \<open>this\<close> is live and its data pointer is null or an allocated block other
  than the source's. Afterwards the source has size 0, and no data when its size was
  not 0 (a source of size 0 keeps its members, data pointer included); the destination
  has the source's original size, with the source's data pointer when that size is not
  0 and the null pointer when it is 0, and so, at every index below that size, the
  element the source had; no array is touched except the destination's old block, which move
  assignment releases. Destroying the source afterwards succeeds (given that a source
  of size 0 holds a null or an allocated pointer) and leaves the destination's members
  and elements as they are. Move assignment of an object to itself returns the state
  unchanged.
\<close>

theorem Buffer_move_semantics:
  "(bufs s buffer = Some b \<longrightarrow> this \<noteq> buffer \<longrightarrow>
      (\<exists>s'. Buffer_move_ctor this buffer s = Inr s' \<and>
        Buffer_getSize buffer s' = Inr 0 \<and>
        (Buffer.m_size b \<noteq> 0 \<longrightarrow>
           bufs s' buffer = Some \<lparr>Buffer.data = 0, Buffer.m_size = 0\<rparr>) \<and>
        (Buffer.m_size b = 0 \<longrightarrow> bufs s' buffer = Some b) \<and>
        bufs s' this =
          Some \<lparr>Buffer.data = (if Buffer.m_size b = 0 then 0 else Buffer.data b),
                Buffer.m_size = Buffer.m_size b\<rparr> \<and>
        Buffer_getSize this s' = Inr (Buffer.m_size b) \<and>
        (\<forall>i. i < Buffer.m_size b \<longrightarrow> Buffer_index this i s' = Buffer_index buffer i s) \<and>
        arrays s' = arrays s \<and>
        ((Buffer.m_size b = 0 \<longrightarrow> Buffer.data b = 0 \<or> arrays s (Buffer.data b) \<noteq> None) \<longrightarrow>
          (\<exists>s''. Buffer_dtor buffer s' = Inr s'' \<and> bufs s'' this = bufs s' this \<and>
             (\<forall>i. i < Buffer.m_size b \<longrightarrow>
                Buffer_index this i s'' = Buffer_index buffer i s))))) \<and>
   (bufs s buffer = Some b \<longrightarrow> bufs s this = Some t \<longrightarrow> this \<noteq> buffer \<longrightarrow>
    (Buffer.data t = 0 \<or> arrays s (Buffer.data t) \<noteq> None) \<longrightarrow>
    (Buffer.data t = 0 \<or> Buffer.data t \<noteq> Buffer.data b) \<longrightarrow>
      (\<exists>s'. Buffer_move_assign this buffer s = Inr s' \<and>
        Buffer_getSize buffer s' = Inr 0 \<and>
        (Buffer.m_size b \<noteq> 0 \<longrightarrow>
           bufs s' buffer = Some \<lparr>Buffer.data = 0, Buffer.m_size = 0\<rparr>) \<and>
        (Buffer.m_size b = 0 \<longrightarrow> bufs s' buffer = Some b) \<and>
        bufs s' this =
          Some \<lparr>Buffer.data = (if Buffer.m_size b = 0 then 0 else Buffer.data b),
                Buffer.m_size = Buffer.m_size b\<rparr> \<and>
        Buffer_getSize this s' = Inr (Buffer.m_size b) \<and>
        (\<forall>i. i < Buffer.m_size b \<longrightarrow> Buffer_index this i s' = Buffer_index buffer i s) \<and>
        arrays s' =
          (if Buffer.data t = 0 then arrays s else (arrays s)(Buffer.data t := None)) \<and>
        ((Buffer.m_size b = 0 \<longrightarrow> Buffer.data b = 0 \<or> arrays s (Buffer.data b) \<noteq> None) \<longrightarrow>
          (\<exists>s''. Buffer_dtor buffer s' = Inr s'' \<and> bufs s'' this = bufs s' this \<and>
             (\<forall>i. i < Buffer.m_size b \<longrightarrow>
                Buffer_index this i s'' = Buffer_index buffer i s))))) \<and>
   Buffer_move_assign this this s = Inr s"
proof -
  have self: "Buffer_move_assign this this s = Inr s"
    by (simp add: Buffer_move_assign_def)
  show ?thesis
    using Buffer_move_ctor_effect [of s buffer b this]
      Buffer_move_assign_effect [of s buffer b this t] self
    by blast
qed

theorem Buffer_move_semantics_witness:
  "bufs ex_two_buffers 0 = Some \<lparr>Buffer.data = 1, Buffer.m_size = 3\<rparr> \<and>
   bufs ex_two_buffers 1 = Some \<lparr>Buffer.data = 2, Buffer.m_size = 2\<rparr> \<and>
   (\<exists>s'. Buffer_move_ctor 2 0 ex_two_buffers = Inr s' \<and>
      bufs s' 0 = Some \<lparr>Buffer.data = 0, Buffer.m_size = 0\<rparr> \<and>
      Buffer_getSize 2 s' = Inr 3 \<and>
      Buffer_index 2 1 s' = Inr 8 \<and>
      (\<exists>s''. Buffer_dtor 0 s' = Inr s'' \<and> bufs s'' 2 = bufs s' 2 \<and>
         Buffer_index 2 1 s'' = Inr 8)) \<and>
   (\<exists>s'. Buffer_move_assign 1 0 ex_two_buffers = Inr s' \<and>
      bufs s' 0 = Some \<lparr>Buffer.data = 0, Buffer.m_size = 0\<rparr> \<and>
      Buffer_getSize 1 s' = Inr 3 \<and>
      Buffer_index 1 2 s' = Inr 9 \<and>
      arrays s' 2 = None \<and>
      (\<exists>s''. Buffer_dtor 0 s' = Inr s'' \<and> bufs s'' 1 = bufs s' 1 \<and>
         Buffer_index 1 2 s'' = Inr 9)) \<and>
   bufs ex_shrunk 0 = Some \<lparr>Buffer.data = 1, Buffer.m_size = 0\<rparr> \<and>
   (\<exists>s'. Buffer_move_ctor 1 0 ex_shrunk = Inr s' \<and>
      bufs s' 1 = Some \<lparr>Buffer.data = 0, Buffer.m_size = 0\<rparr> \<and>
      bufs s' 0 = Some \<lparr>Buffer.data = 1, Buffer.m_size = 0\<rparr>) \<and>
   Buffer_move_assign 0 0 ex_two_buffers = Inr ex_two_buffers"
proof -
  let ?b = "\<lparr>Buffer.data = 1, Buffer.m_size = 3\<rparr>"
  let ?t = "\<lparr>Buffer.data = 2, Buffer.m_size = 2\<rparr>"
  have b: "bufs ex_two_buffers 0 = Some ?b" and t: "bufs ex_two_buffers 1 = Some ?t"
    by (simp_all add: ex_two_buffers_def)
  have ix: "Buffer_index 0 1 ex_two_buffers = Inr 8" "Buffer_index 0 2 ex_two_buffers = Inr 9"
    by (simp_all add: Buffer_index_def ex_two_buffers_def)
  have ar: "arrays ex_two_buffers 2 \<noteq> None"
    by (simp add: ex_two_buffers_def)
  note m = Buffer_move_semantics [of ex_two_buffers 0 ?b 2 ?t]
  note a = Buffer_move_semantics [of ex_two_buffers 0 ?b 1 ?t]
  from m b obtain s1 where s1: "Buffer_move_ctor 2 0 ex_two_buffers = Inr s1"
    "bufs s1 0 = Some \<lparr>Buffer.data = 0, Buffer.m_size = 0\<rparr>"
    "Buffer_getSize 2 s1 = Inr 3"
    "\<forall>i. i < 3 \<longrightarrow> Buffer_index 2 i s1 = Buffer_index 0 i ex_two_buffers"
    "\<exists>s''. Buffer_dtor 0 s1 = Inr s'' \<and> bufs s'' 2 = bufs s1 2 \<and>
       (\<forall>i. i < 3 \<longrightarrow> Buffer_index 2 i s'' = Buffer_index 0 i ex_two_buffers)"
    by auto
  from s1(5) obtain s2 where s2: "Buffer_dtor 0 s1 = Inr s2" "bufs s2 2 = bufs s1 2"
    "\<forall>i. i < 3 \<longrightarrow> Buffer_index 2 i s2 = Buffer_index 0 i ex_two_buffers"
    by blast
  have i1: "Buffer_index 2 1 s1 = Inr 8" "Buffer_index 2 1 s2 = Inr 8"
    using s1(4) s2(3) ix(1) by simp_all
  from a b t ar obtain s3 where s3: "Buffer_move_assign 1 0 ex_two_buffers = Inr s3"
    "bufs s3 0 = Some \<lparr>Buffer.data = 0, Buffer.m_size = 0\<rparr>"
    "Buffer_getSize 1 s3 = Inr 3"
    "\<forall>i. i < 3 \<longrightarrow> Buffer_index 1 i s3 = Buffer_index 0 i ex_two_buffers"
    "arrays s3 = (arrays ex_two_buffers)(2 := None)"
    "\<exists>s''. Buffer_dtor 0 s3 = Inr s'' \<and> bufs s'' 1 = bufs s3 1 \<and>
       (\<forall>i. i < 3 \<longrightarrow> Buffer_index 1 i s'' = Buffer_index 0 i ex_two_buffers)"
    by auto
  from s3(6) obtain s4 where s4: "Buffer_dtor 0 s3 = Inr s4" "bufs s4 1 = bufs s3 1"
    "\<forall>i. i < 3 \<longrightarrow> Buffer_index 1 i s4 = Buffer_index 0 i ex_two_buffers"
    by blast
  have i2: "Buffer_index 1 2 s3 = Inr 9" "Buffer_index 1 2 s4 = Inr 9"
    using s3(4) s4(3) ix(2) by simp_all
  have n: "arrays s3 2 = None"
    using s3(5) by simp
  have e: "Buffer_move_assign 0 0 ex_two_buffers = Inr ex_two_buffers"
    by (rule conjunct2 [OF conjunct2 [OF Buffer_move_semantics [of ex_two_buffers 0 ?b 0 ?t]]])
  let ?z = "\<lparr>Buffer.data = 1, Buffer.m_size = 0\<rparr>"
  have bz: "bufs ex_shrunk 0 = Some ?z"
    by (simp add: ex_shrunk_def)
  from Buffer_move_semantics [of ex_shrunk 0 ?z 1 ?t] bz obtain s5 where
    s5: "Buffer_move_ctor 1 0 ex_shrunk = Inr s5"
      "bufs s5 1 = Some \<lparr>Buffer.data = 0, Buffer.m_size = 0\<rparr>"
      "bufs s5 0 = Some ?z"
    by auto
  show ?thesis
    using b t s1(1,2,3) i1 s2(1,2) s3(1,2,3) i2 n s4(1,2) e bz s5 by blast
qed

section \<open>Creating a SharedBuffer\<close>

text \<open>
  For a requested size below \<open>2\<^sup>3\<^sup>2\<close> the constructor does what the specification says:
  the size read back is the size asked for; size 0 gives the three zero members and
  touches no block; a positive size gives a block of that many zeros and a counter
  cell holding 1, both at addresses beyond every address handed out before.
\<close>

lemma SharedBuffer_new_in_range:
  assumes "unat n < 2 ^ 32"
  shows "SharedBuffer_getSize this (SharedBuffer_new this n s) = Inr n \<and>
     (n = 0 \<longrightarrow>
        SharedBuffer_new this n s =
          s\<lparr>sbufs := (sbufs s)(this \<mapsto> \<lparr>data = 0, m_size = 0, refcount = 0\<rparr>)\<rparr>) \<and>
     (n \<noteq> 0 \<longrightarrow>
        SharedBuffer_new this n s =
          s\<lparr>arrays := (arrays s)(brk s + 1 \<mapsto> replicate (unat n) 0),
            cells := (cells s)(brk s + 2 \<mapsto> 1),
            brk := brk s + 2,
            sbufs := (sbufs s)
              (this \<mapsto> \<lparr>data = brk s + 1, m_size = ucast n, refcount = brk s + 2\<rparr>)\<rparr>)"
proof -
  have u: "unat (ucast n :: u32) = unat n"
    using assms by (simp add: unat_ucast_down)
  then have rt: "(ucast (ucast n :: u32) :: size_t) = n"
    by (simp add: word_unat_eq_iff unat_ucast_up)
  have z: "(ucast n :: u32) = 0 \<longleftrightarrow> n = 0"
    using u by (metis unat_eq_zero)
  show ?thesis
    using u rt z
    by (simp add: SharedBuffer_new_def SharedBuffer_getSize_def new_array_def new_u32_def
        Let_def)
qed

text \<open>
  Claim C3 says that \<^verbatim>\<open>SharedBuffer(n)\<close> has size \<open>n\<close> for every \<open>n\<close>, and a fresh zeroed
  block with counter 1 when \<open>n > 0\<close>. The constructor takes a \<^verbatim>\<open>size_t\<close> and stores it in
  the \<^verbatim>\<open>unsigned int\<close> member \<^verbatim>\<open>m_size\<close> (lines 152, 268), while \<^verbatim>\<open>Buffer\<close> keeps a
  \<^verbatim>\<open>size_t\<close> (line 129). With \<open>n = 2\<^sup>3\<^sup>2\<close> the member is 0: the object is the empty
  sentinel, nothing is allocated and \<^verbatim>\<open>getSize()\<close> returns 0.
\<close>

theorem SharedBuffer_new_truncates:
  "SharedBuffer_new 0 4294967296 (init_state :: u8 state) =
     init_state\<lparr>sbufs := [0 \<mapsto> \<lparr>data = 0, m_size = 0, refcount = 0\<rparr>]\<rparr> \<and>
   SharedBuffer_getSize 0 (SharedBuffer_new 0 4294967296 (init_state :: u8 state)) = Inr 0 \<and>
   (4294967296 :: size_t) \<noteq> 0"
  by (simp add: SharedBuffer_new_def SharedBuffer_getSize_def init_state_def two_32_u32)

section \<open>Copying a SharedBuffer\<close>

text \<open>
  The \<^verbatim>\<open>assert\<close> of the copy constructor (line 163) reads the members of the object
  under construction, which hold their default member initialisers: it cannot fail.
\<close>

lemma SharedBuffer_copy_ctor_never_asserts:
  "SharedBuffer_copy_ctor ndebug this buffer s \<noteq> Inl AssertionFailed"
  by (simp add: SharedBuffer_copy_ctor_def Let_def split: option.splits)

text \<open>
  Claim C5 says that copy construction and copy assignment assert, before the
  increment, that a non-empty instance involved has a counter. In a build with
  assertions, copying from the corrupted object 0 of \<open>ex_corrupt\<close> (three elements, a
  data pointer, no counter) succeeds through the copy constructor and through the copy
  assignment, and leaves a second object in the same corrupted state: the constructor's
  \<^verbatim>\<open>assert\<close> does not read the source, and the assignment has no such \<^verbatim>\<open>assert\<close>.
\<close>

theorem SharedBuffer_copy_unchecked:
  "SharedBuffer_copy_ctor False 1 0 ex_corrupt =
     Inr (ex_corrupt\<lparr>sbufs := [0 \<mapsto> \<lparr>data = 1, m_size = 3, refcount = 0\<rparr>,
                               1 \<mapsto> \<lparr>data = 1, m_size = 3, refcount = 0\<rparr>]\<rparr>) \<and>
   SharedBuffer_assign False 1 0 (SharedBuffer_default 1 ex_corrupt) =
     Inr (ex_corrupt\<lparr>sbufs := [0 \<mapsto> \<lparr>data = 1, m_size = 3, refcount = 0\<rparr>,
                               1 \<mapsto> \<lparr>data = 1, m_size = 3, refcount = 0\<rparr>]\<rparr>)"
  by (simp add: SharedBuffer_copy_ctor_def SharedBuffer_assign_def SharedBuffer_default_def
      SharedBuffer_drop_def ex_corrupt_def del: One_nat_def)

theorem SharedBuffer_copy_unchecked_witness:
  "SharedBuffer_copy_ctor False 1 0 ex_corrupt \<noteq> Inl AssertionFailed \<and>
   SharedBuffer_assign False 1 0 (SharedBuffer_default 1 ex_corrupt) \<noteq> Inl AssertionFailed \<and>
   sbufs ex_corrupt 0 = Some \<lparr>data = 1, m_size = 3, refcount = 0\<rparr>"
  using SharedBuffer_copy_unchecked by (simp add: ex_corrupt_def)

section \<open>Converting between Buffer and SharedBuffer\<close>

text \<open>
  Claim C8 says that \<^verbatim>\<open>Buffer\<close> to \<^verbatim>\<open>SharedBuffer\<close> and back keeps size and elements for
  every \<^verbatim>\<open>Buffer\<close>. The conversion runs the span constructor of lines 198-210, which
  stores the \<^verbatim>\<open>size_t\<close> size in the \<^verbatim>\<open>unsigned int\<close> member, as the constructor
  \<^verbatim>\<open>SharedBuffer(size_t)\<close> does. The \<^verbatim>\<open>Buffer\<close> of \<open>2\<^sup>3\<^sup>2\<close> elements of \<open>ex_huge\<close>
  becomes the empty \<^verbatim>\<open>SharedBuffer\<close>, and that becomes a \<^verbatim>\<open>Buffer\<close> of size 0.
\<close>

theorem round_trip_truncates:
  "SharedBuffer_from_Buffer 0 0 ex_huge =
     Inr (ex_huge\<lparr>sbufs := [0 \<mapsto> \<lparr>data = 0, m_size = 0, refcount = 0\<rparr>]\<rparr>) \<and>
   SharedBuffer_to_Buffer 0 1
       (ex_huge\<lparr>sbufs := [0 \<mapsto> \<lparr>data = 0, m_size = 0, refcount = 0\<rparr>]\<rparr>) =
     Inr (ex_huge\<lparr>sbufs := [0 \<mapsto> \<lparr>data = 0, m_size = 0, refcount = 0\<rparr>],
                   bufs := [0 \<mapsto> \<lparr>Buffer.data = 1, Buffer.m_size = 4294967296\<rparr>,
                            1 \<mapsto> \<lparr>Buffer.data = 0, Buffer.m_size = 0\<rparr>]\<rparr>) \<and>
   Buffer_getSize 0 ex_huge = Inr 4294967296 \<and>
   Buffer_getSize 1
       (ex_huge\<lparr>sbufs := [0 \<mapsto> \<lparr>data = 0, m_size = 0, refcount = 0\<rparr>],
                   bufs := [0 \<mapsto> \<lparr>Buffer.data = 1, Buffer.m_size = 4294967296\<rparr>,
                            1 \<mapsto> \<lparr>Buffer.data = 0, Buffer.m_size = 0\<rparr>]\<rparr>) = Inr 0"
  by (simp add: SharedBuffer_from_Buffer_def SharedBuffer_from_span_def
      SharedBuffer_to_Buffer_def Buffer_from_span_def Buffer_getSize_def ex_huge_def
      two_32_u32)

section \<open>IntrusiveReferenceCounted\<close>

lemma calls_append:
  "calls (cs @ ds) obj =
     (case calls cs obj of Inl e \<Rightarrow> Inl e | Inr obj1 \<Rightarrow> calls ds obj1)"
  by (induction cs arbitrary: obj) (auto split: sum.splits)

lemma calls_grabs:
  "calls (replicate n Grab) (Some obj) =
     Inr (Some (obj\<lparr>m_refcount := m_refcount obj + of_nat n\<rparr>))"
  by (induction n arbitrary: obj) (simp_all add: grab_def algebra_simps)

lemma calls_disciplined:
  "disciplined k cs \<Longrightarrow> k + count_list cs Grab < 2 ^ 32 \<Longrightarrow>
     count_list cs Drop \<le> k + count_list cs Grab \<and>
     calls cs (Some \<lparr>m_refcount = of_nat (Suc k)\<rparr>) =
       Inr (Some \<lparr>m_refcount =
         of_nat (Suc (k + count_list cs Grab - count_list cs Drop))\<rparr>)"
proof (induction k cs rule: disciplined.induct)
  case (1 k)
  then show ?case by simp
next
  case (2 k cs)
  then show ?case by (simp add: grab_def algebra_simps)
next
  case (3 k cs)
  then obtain j where k: "k = Suc j"
    by (cases k) auto
  have "Suc j < 2 ^ LENGTH(32)"
    using 3 k by simp
  then have "(of_nat (Suc j) :: u32) \<noteq> 0"
    by (intro of_nat_neq_0) simp_all
  then show ?case
    using 3 k by (simp add: IntrusiveReferenceCounted_drop_def)
qed

lemma disciplined_drops: "disciplined k (replicate m Drop) \<longleftrightarrow> m \<le> k"
proof (induction m arbitrary: k)
  case 0
  show ?case by simp
next
  case (Suc m)
  have "disciplined k (replicate (Suc m) Drop) \<longleftrightarrow> 0 < k \<and> m \<le> k - 1"
    by (simp add: Suc)
  also have "\<dots> \<longleftrightarrow> Suc m \<le> k"
    by arith
  finally show ?case .
qed

lemma disciplined_sequential:
  "disciplined k (replicate n Grab @ replicate m Drop) \<longleftrightarrow> m \<le> k + n"
  by (induction n arbitrary: k) (simp_all add: disciplined_drops)

text \<open>
  Claim C9, as stated, for every \<open>n\<close>: after \<open>n\<close> acquires and \<open>n\<close> releases the object
  has not been deleted. The counter is a \<^verbatim>\<open>u32\<close> (line 282): after \<open>2\<^sup>3\<^sup>2\<close> acquires it
  is back at 1, the first release deletes the object while \<open>2\<^sup>3\<^sup>2\<close> references are
  outstanding, and the remaining releases reach a deleted object.
\<close>

theorem IntrusiveReferenceCounted_wraps_counterexample:
  "calls (replicate 4294967296 Grab) (Some IntrusiveReferenceCounted_new) =
     Inr (Some IntrusiveReferenceCounted_new) \<and>
   calls (replicate 4294967296 Grab @ replicate 1 Drop) (Some IntrusiveReferenceCounted_new) =
     Inr None \<and>
   calls (replicate 4294967296 Grab @ replicate 4294967296 Drop)
     (Some IntrusiveReferenceCounted_new) = Inl InvalidMemory"
proof -
  have g: "calls (replicate 4294967296 Grab) (Some IntrusiveReferenceCounted_new) =
     Inr (Some IntrusiveReferenceCounted_new)"
    unfolding calls_grabs by (simp add: IntrusiveReferenceCounted_new_def)
  have d: "calls (replicate 1 Drop) (Some IntrusiveReferenceCounted_new) = Inr None"
    by (simp add: IntrusiveReferenceCounted_new_def IntrusiveReferenceCounted_drop_def)
  have r: "replicate 4294967296 Drop = Drop # Drop # replicate 4294967294 Drop"
    by (simp add: replicate_Suc [symmetric] del: replicate_Suc replicate.simps)
  have u: "calls (replicate 4294967296 Drop) (Some IntrusiveReferenceCounted_new) =
     Inl InvalidMemory"
    unfolding r
    by (simp add: IntrusiveReferenceCounted_new_def IntrusiveReferenceCounted_drop_def)
  show ?thesis
    unfolding calls_append g by (simp only: d u sum.case simp_thms)
qed

text \<open>
  Claim C9, amended: for every \<open>n < 2\<^sup>3\<^sup>2\<close>. The counter of a new object is 1. Let \<open>cs\<close>
  be a sequence of calls with \<open>n\<close> acquires in which no release comes before the
  acquire it gives back; \<open>n\<close> acquires followed by up to \<open>n\<close> releases is such a
  sequence. Then every call of \<open>cs\<close> succeeds and the object is alive after it, with
  the counter at 1 plus the acquires minus the releases: no release of \<open>cs\<close> deletes.
  When \<open>cs\<close> has \<open>n\<close> releases, one more release, the \<open>n+1\<close>-th, finds the counter at 1,
  takes it to zero and deletes the object; any call after that is an access to a deleted
  object, so the deletion happens once.
\<close>

theorem IntrusiveReferenceCounted_lifetime:
  assumes "n < 2 ^ 32" and "disciplined 0 cs" and "count_list cs Grab = n"
  shows "m_refcount IntrusiveReferenceCounted_new = 1 \<and>
    count_list cs Drop \<le> n \<and>
    calls cs (Some IntrusiveReferenceCounted_new) =
      Inr (Some \<lparr>m_refcount = of_nat (Suc (n - count_list cs Drop))\<rparr>) \<and>
    (count_list cs Drop = n \<longrightarrow>
       calls cs (Some IntrusiveReferenceCounted_new) = Inr (Some IntrusiveReferenceCounted_new) \<and>
       calls (cs @ [Drop]) (Some IntrusiveReferenceCounted_new) = Inr None \<and>
       calls (cs @ [Drop, c]) (Some IntrusiveReferenceCounted_new) = Inl InvalidMemory) \<and>
    (\<forall>k. k \<le> n \<longrightarrow> disciplined 0 (replicate n Grab @ replicate k Drop))"
proof -
  have new: "IntrusiveReferenceCounted_new = \<lparr>m_refcount = of_nat (Suc 0)\<rparr>"
    by (simp add: IntrusiveReferenceCounted_new_def)
  from calls_disciplined [of 0 cs] assms
  have le: "count_list cs Drop \<le> n"
    and run: "calls cs (Some IntrusiveReferenceCounted_new) =
      Inr (Some \<lparr>m_refcount = of_nat (Suc (n - count_list cs Drop))\<rparr>)"
    by (simp_all add: new)
  have last: "calls (cs @ [Drop]) (Some IntrusiveReferenceCounted_new) = Inr None \<and>
       calls (cs @ [Drop, c]) (Some IntrusiveReferenceCounted_new) = Inl InvalidMemory"
    if "count_list cs Drop = n"
    using that run
    by (simp add: calls_append IntrusiveReferenceCounted_drop_def)
  show ?thesis
    using le run last
    by (simp add: disciplined_sequential IntrusiveReferenceCounted_new_def)
qed

theorem IntrusiveReferenceCounted_lifetime_witness:
  "(2 :: nat) < 2 ^ 32 \<and> disciplined 0 [Grab, Grab, Drop, Drop] \<and>
   count_list [Grab, Grab, Drop, Drop] Grab = 2 \<and>
   calls [Grab, Grab, Drop, Drop] (Some IntrusiveReferenceCounted_new) =
     Inr (Some IntrusiveReferenceCounted_new) \<and>
   calls ([Grab, Grab, Drop, Drop] @ [Drop]) (Some IntrusiveReferenceCounted_new) = Inr None \<and>
   calls ([Grab, Grab, Drop, Drop] @ [Drop, Drop]) (Some IntrusiveReferenceCounted_new) =
     Inl InvalidMemory"
proof -
  have h: "(2 :: nat) < 2 ^ 32" "disciplined 0 [Grab, Grab, Drop, Drop]"
    "count_list [Grab, Grab, Drop, Drop] Grab = 2"
    "count_list [Grab, Grab, Drop, Drop] Drop = 2"
    by simp_all
  show ?thesis
    using h IntrusiveReferenceCounted_lifetime [OF h(1) h(2) h(3), of Drop]
    by simp
qed

section \<open>The reference count of a SharedBuffer\<close>

lemma holders_sbufs_upd:
  "sbufs s' = (sbufs s)(i \<mapsto> b) \<Longrightarrow>
   holders s' r = (if refcount b = r then insert i (holders s r) else holders s r - {i})"
  by (auto simp: holders_def)

lemma holders_sbufs_del:
  "sbufs s' = (sbufs s)(i := None) \<Longrightarrow> holders s' r = holders s r - {i}"
  by (auto simp: holders_def)

lemma holders_sbufs_eq: "sbufs s' = sbufs s \<Longrightarrow> holders s' r = holders s r"
  by (simp add: holders_def)

lemma holders_subset: "holders s r \<subseteq> dom (sbufs s)"
  by (auto simp: holders_def)

lemma holders_finite: "finite (dom (sbufs s)) \<Longrightarrow> finite (holders s r)"
  using holders_subset finite_subset by blast

lemma holders_fresh: "sbufs s i = None \<Longrightarrow> i \<notin> holders s r"
  by (simp add: holders_def)

lemma holders_member: "sbufs s i = Some b \<Longrightarrow> i \<in> holders s (refcount b)"
  by (auto simp: holders_def)

text \<open>What a successful copy construction, destruction and assignment change.\<close>

lemma SharedBuffer_copy_ctor_live:
  "SharedBuffer_copy_ctor ndebug this buffer s = Inr s' \<Longrightarrow> \<exists>b. sbufs s buffer = Some b"
  by (auto simp: SharedBuffer_copy_ctor_def Let_def split: option.splits if_splits)

lemma SharedBuffer_copy_ctor_effect:
  assumes "SharedBuffer_copy_ctor ndebug this buffer s = Inr s'" and "sbufs s buffer = Some b"
  shows "sbufs s' = (sbufs s)(this \<mapsto> b) \<and>
     bufs s' = bufs s \<and> arrays s' = arrays s \<and> brk s' = brk s \<and>
     (if refcount b = 0 then cells s' = cells s
      else case cells s (refcount b) of
        None \<Rightarrow> False
      | Some c \<Rightarrow> cells s' = (cells s)(refcount b \<mapsto> c + 1))"
  using assms
  by (auto simp: SharedBuffer_copy_ctor_def Let_def split: option.splits if_splits)

lemma SharedBuffer_dtor_live:
  "SharedBuffer_dtor ndebug this s = Inr s' \<Longrightarrow> \<exists>b. sbufs s this = Some b"
  by (auto simp: SharedBuffer_dtor_def SharedBuffer_drop_def split: option.splits sum.splits)

lemma SharedBuffer_dtor_effect:
  assumes "SharedBuffer_dtor ndebug this s = Inr s'" and "sbufs s this = Some b"
  shows "sbufs s' = (sbufs s)(this := None) \<and> bufs s' = bufs s \<and> brk s' = brk s \<and>
     (if refcount b = 0 then cells s' = cells s \<and> arrays s' = arrays s
      else case cells s (refcount b) of
        None \<Rightarrow> False
      | Some c \<Rightarrow> (ndebug \<or> c \<noteq> 0) \<and>
         (if c = 1
          then cells s' = (cells s)(refcount b := None) \<and>
               (if data b = 0 then arrays s' = arrays s
                else arrays s (data b) \<noteq> None \<and> arrays s' = (arrays s)(data b := None))
          else cells s' = (cells s)(refcount b \<mapsto> c - 1) \<and> arrays s' = arrays s))"
  using assms
  by (auto simp: SharedBuffer_dtor_def SharedBuffer_drop_def delete_array_def delete_u32_def
      Let_def word_greater_zero_iff split: option.splits if_splits sum.splits)

lemma SharedBuffer_assign_as_dtor_copy:
  assumes "this \<noteq> buffer"
  shows "SharedBuffer_assign ndebug this buffer s =
     (case SharedBuffer_dtor ndebug this s of
        Inl e \<Rightarrow> Inl e
      | Inr s1 \<Rightarrow> SharedBuffer_copy_ctor ndebug this buffer s1)"
  using assms
  apply (auto simp: SharedBuffer_assign_def SharedBuffer_dtor_def SharedBuffer_copy_ctor_def Let_def
      split: sum.splits option.splits)
  done

lemma shared_okI:
  assumes "finite (dom (sbufs s))"
    and "\<And>i b. sbufs s i = Some b \<Longrightarrow> refcount b = 0 \<Longrightarrow> data b = 0 \<and> m_size b = 0"
    and "\<And>i b. sbufs s i = Some b \<Longrightarrow> refcount b \<noteq> 0 \<Longrightarrow>
        data b \<noteq> 0 \<and> arrays s (data b) \<noteq> None \<and>
        (\<exists>c. cells s (refcount b) = Some c \<and> unat c = card (holders s (refcount b)))"
    and "\<And>i j b b'. sbufs s i = Some b \<Longrightarrow> sbufs s j = Some b' \<Longrightarrow>
        refcount b \<noteq> 0 \<Longrightarrow> refcount b' \<noteq> 0 \<Longrightarrow>
        (refcount b = refcount b') = (data b = data b')"
  shows "shared_ok s"
  unfolding shared_ok_def using assms by blast

lemma shared_okD_fin: "shared_ok s \<Longrightarrow> finite (dom (sbufs s))"
  by (simp add: shared_ok_def)

lemma shared_okD_null:
  "shared_ok s \<Longrightarrow> sbufs s i = Some b \<Longrightarrow> refcount b = 0 \<Longrightarrow> data b = 0 \<and> m_size b = 0"
  unfolding shared_ok_def by blast

lemma shared_okD_cnt:
  "shared_ok s \<Longrightarrow> sbufs s i = Some b \<Longrightarrow> refcount b \<noteq> 0 \<Longrightarrow>
     data b \<noteq> 0 \<and> arrays s (data b) \<noteq> None \<and>
     (\<exists>c. cells s (refcount b) = Some c \<and> unat c = card (holders s (refcount b)))"
  unfolding shared_ok_def by blast

lemma shared_okD_pair:
  "shared_ok s \<Longrightarrow> sbufs s i = Some b \<Longrightarrow> sbufs s j = Some b' \<Longrightarrow>
     refcount b \<noteq> 0 \<Longrightarrow> refcount b' \<noteq> 0 \<Longrightarrow>
     (refcount b = refcount b') = (data b = data b')"
  unfolding shared_ok_def by blast

lemma holders_bound:
  assumes "finite (dom (sbufs s))"
  shows "card (holders s r) \<le> card (dom (sbufs s))"
  by (rule card_mono [OF assms holders_subset])

lemma unat_Suc_u32:
  fixes c :: u32
  assumes "Suc (unat c) < 2 ^ 32"
  shows "unat (c + 1) = Suc (unat c)"
  using assms by (simp add: unat_word_ariths)

lemma shared_ok_copy:
  assumes ok: "shared_ok s" and fresh: "sbufs s this = None"
    and c: "SharedBuffer_copy_ctor ndebug this buffer s = Inr s'"
    and bound: "card (dom (sbufs s')) < 2 ^ 32"
  shows "shared_ok s'"
proof -
  from c obtain b where b: "sbufs s buffer = Some b"
    using SharedBuffer_copy_ctor_live by blast
  note eff = SharedBuffer_copy_ctor_effect [OF c b]
  have sb: "sbufs s' = (sbufs s)(this \<mapsto> b)" and ar: "arrays s' = arrays s"
    using eff by simp_all
  have fin: "finite (dom (sbufs s'))"
    using shared_okD_fin [OF ok] by (simp add: sb)
  have old: "\<exists>j. sbufs s j = Some x" if "sbufs s' i = Some x" for i x
    using that b by (auto simp: sb split: if_splits)
  show ?thesis
  proof (rule shared_okI)
    show "finite (dom (sbufs s'))" by (rule fin)
  next
    fix i x assume "sbufs s' i = Some x" "refcount x = 0"
    then show "data x = 0 \<and> m_size x = 0"
      using old shared_okD_null [OF ok] by blast
  next
    fix i x assume x: "sbufs s' i = Some x" and r: "refcount x \<noteq> 0"
    from old [OF x] obtain j where j: "sbufs s j = Some x" by blast
    from shared_okD_cnt [OF ok j r] obtain c0 where
      d: "data x \<noteq> 0" "arrays s (data x) \<noteq> None" and
      c0: "cells s (refcount x) = Some c0" "unat c0 = card (holders s (refcount x))"
      by blast
    show "data x \<noteq> 0 \<and> arrays s' (data x) \<noteq> None \<and>
        (\<exists>c. cells s' (refcount x) = Some c \<and> unat c = card (holders s' (refcount x)))"
    proof (cases "refcount x = refcount b")
      case True
      then have cl: "cells s' (refcount x) = Some (c0 + 1)"
        using eff r c0 by simp
      have h: "holders s' (refcount x) = insert this (holders s (refcount x))"
        using holders_sbufs_upd [OF sb] True by simp
      have cd: "card (holders s' (refcount x)) = Suc (card (holders s (refcount x)))"
        unfolding h
        using holders_fresh [OF fresh] holders_finite [OF shared_okD_fin [OF ok]]
        by simp
      have "card (holders s' (refcount x)) < 2 ^ 32"
        using holders_bound [OF fin, of "refcount x"] bound by simp
      then have "unat (c0 + 1) = Suc (unat c0)"
        using cd c0 by (intro unat_Suc_u32) simp
      then show ?thesis
        using d cl cd c0 by (simp add: ar)
    next
      case False
      then have cl: "cells s' (refcount x) = cells s (refcount x)"
        using eff by (auto split: option.splits if_splits)
      have h: "holders s' (refcount x) = holders s (refcount x)"
        using holders_sbufs_upd [OF sb, of "refcount x"] False holders_fresh [OF fresh]
        by auto
      show ?thesis
        using d c0 cl h by (simp add: ar)
    qed
  next
    fix i j x y
    assume "sbufs s' i = Some x" "sbufs s' j = Some y" "refcount x \<noteq> 0" "refcount y \<noteq> 0"
    then show "(refcount x = refcount y) = (data x = data y)"
      using old shared_okD_pair [OF ok] by blast
  qed
qed

lemma unat_eq_1_iff: "unat (c :: u32) = Suc 0 \<longleftrightarrow> c = 1"
  by (metis One_nat_def unat_1 word_unat_eq_iff)

lemma shared_ok_dtor:
  assumes ok: "shared_ok s" and d: "SharedBuffer_dtor ndebug this s = Inr s'"
  shows "shared_ok s'"
proof -
  from d obtain b where b: "sbufs s this = Some b"
    using SharedBuffer_dtor_live by blast
  note eff = SharedBuffer_dtor_effect [OF d b]
  have sb: "sbufs s' = (sbufs s)(this := None)"
    using eff by simp
  have old: "i \<noteq> this \<and> sbufs s i = Some x" if "sbufs s' i = Some x" for i x
    using that by (auto simp: sb split: if_splits)
  have hs: "holders s' r = holders s r - {this}" for r
    by (rule holders_sbufs_del [OF sb])
  have fin: "finite (dom (sbufs s))"
    by (rule shared_okD_fin [OF ok])
  show ?thesis
  proof (rule shared_okI)
    show "finite (dom (sbufs s'))"
      using fin by (simp add: sb)
  next
    fix i x assume "sbufs s' i = Some x" "refcount x = 0"
    then show "data x = 0 \<and> m_size x = 0"
      using old shared_okD_null [OF ok] by blast
  next
    fix i x assume x: "sbufs s' i = Some x" and r: "refcount x \<noteq> 0"
    from old [OF x] have i: "i \<noteq> this" "sbufs s i = Some x" by simp_all
    from shared_okD_cnt [OF ok i(2) r] obtain c0 where
      dx: "data x \<noteq> 0" "arrays s (data x) \<noteq> None" and
      c0: "cells s (refcount x) = Some c0" "unat c0 = card (holders s (refcount x))"
      by blast
    show "data x \<noteq> 0 \<and> arrays s' (data x) \<noteq> None \<and>
        (\<exists>c. cells s' (refcount x) = Some c \<and> unat c = card (holders s' (refcount x)))"
    proof (cases "refcount x = refcount b")
      case True
      have mem: "i \<in> holders s (refcount x)" "this \<in> holders s (refcount x)"
        using holders_member [OF i(2)] holders_member [OF b] True by simp_all
      have f: "finite (holders s (refcount x))"
        by (rule holders_finite [OF fin])
      have "{i, this} \<subseteq> holders s (refcount x)"
        using mem by simp
      then have "card {i, this} \<le> card (holders s (refcount x))"
        using f by (intro card_mono)
      then have two: "2 \<le> unat c0"
        using i(1) c0 by simp
      then have ne: "c0 \<noteq> 1" "c0 \<noteq> 0"
        by auto
      have cl: "cells s' (refcount x) = Some (c0 - 1)" and ar: "arrays s' = arrays s"
        using eff True r c0 ne by simp_all
      have "unat (c0 - 1) = unat c0 - 1"
        using ne by (simp add: unat_minus_one)
      moreover have "card (holders s' (refcount x)) = card (holders s (refcount x)) - 1"
        unfolding hs using mem f by simp
      ultimately show ?thesis
        using dx cl ar c0 by simp
    next
      case False
      have cl: "cells s' (refcount x) = cells s (refcount x)"
        using eff False by (auto split: option.splits if_splits)
      have "this \<notin> holders s (refcount x)"
        using b False by (auto simp: holders_def)
      then have h: "holders s' (refcount x) = holders s (refcount x)"
        unfolding hs by simp
      have "arrays s' (data x) \<noteq> None"
      proof (cases "refcount b = 0")
        case True
        then show ?thesis using eff dx by simp
      next
        case nz: False
        have "data x \<noteq> data b"
          using shared_okD_pair [OF ok i(2) b r nz] False by simp
        then show ?thesis
          using eff dx nz by (auto split: option.splits if_splits)
      qed
      then show ?thesis
        using dx c0 cl h by simp
    qed
  next
    fix i j x y
    assume "sbufs s' i = Some x" "sbufs s' j = Some y" "refcount x \<noteq> 0" "refcount y \<noteq> 0"
    then show "(refcount x = refcount y) = (data x = data y)"
      using old shared_okD_pair [OF ok] by blast
  qed
qed

lemma heap_okD_arrays: "heap_ok s \<Longrightarrow> arrays s p \<noteq> None \<Longrightarrow> 0 < p \<and> p \<le> brk s"
  unfolding heap_ok_def by blast

lemma heap_okD_cells: "heap_ok s \<Longrightarrow> cells s p \<noteq> None \<Longrightarrow> 0 < p \<and> p \<le> brk s"
  unfolding heap_ok_def by blast

lemma shared_ok_alloc:
  assumes ok: "shared_ok s" and hp: "heap_ok s" and fresh: "sbufs s this = None"
    and sb: "sbufs s' = (sbufs s)(this \<mapsto> \<lparr>data = brk s + 1, m_size = m, refcount = brk s + 2\<rparr>)"
    and ar: "arrays s' = (arrays s)(brk s + 1 \<mapsto> xs)"
    and cl: "cells s' = (cells s)(brk s + 2 \<mapsto> 1)"
  shows "shared_ok s'"
proof -
  let ?n = "\<lparr>data = brk s + 1, m_size = m, refcount = brk s + 2\<rparr>"
  have fin: "finite (dom (sbufs s))"
    by (rule shared_okD_fin [OF ok])
  have old: "(i = this \<and> x = ?n) \<or> (i \<noteq> this \<and> sbufs s i = Some x)"
    if "sbufs s' i = Some x" for i x
    using that by (auto simp: sb split: if_splits)
  have lo: "data x \<le> brk s \<and> refcount x \<le> brk s \<and> data x \<noteq> 0 \<and> arrays s (data x) \<noteq> None \<and>
      (\<exists>c. cells s (refcount x) = Some c \<and> unat c = card (holders s (refcount x)))"
    if "sbufs s i = Some x" "refcount x \<noteq> 0" for i x
  proof -
    from shared_okD_cnt [OF ok that] obtain c where
      c: "data x \<noteq> 0" "arrays s (data x) \<noteq> None" "cells s (refcount x) = Some c"
        "unat c = card (holders s (refcount x))"
      by blast
    then show ?thesis
      using heap_okD_arrays [OF hp, of "data x"] heap_okD_cells [OF hp, of "refcount x"]
      by simp
  qed
  have none: "holders s (brk s + 2) = {}"
  proof -
    have False if "sbufs s i = Some x" "refcount x = brk s + 2" for i x
      using lo [OF that(1)] that(2) by simp
    then show ?thesis
      by (auto simp: holders_def)
  qed
  show ?thesis
  proof (rule shared_okI)
    show "finite (dom (sbufs s'))"
      using fin by (simp add: sb)
  next
    fix i x assume "sbufs s' i = Some x" "refcount x = 0"
    then show "data x = 0 \<and> m_size x = 0"
      using old [of i x] shared_okD_null [OF ok] by auto
  next
    fix i x assume x: "sbufs s' i = Some x" and r: "refcount x \<noteq> 0"
    show "data x \<noteq> 0 \<and> arrays s' (data x) \<noteq> None \<and>
        (\<exists>c. cells s' (refcount x) = Some c \<and> unat c = card (holders s' (refcount x)))"
    proof (cases "i = this")
      case True
      then have xn: "x = ?n"
        using x by (simp add: sb)
      have "holders s' (brk s + 2) = {this}"
        using holders_sbufs_upd [OF sb, of "brk s + 2"] none by simp
      then show ?thesis
        using xn by (simp add: ar cl)
    next
      case False
      then have o: "sbufs s i = Some x"
        using x by (simp add: sb)
      note l = lo [OF o r]
      have "holders s' (refcount x) = holders s (refcount x)"
        using holders_sbufs_upd [OF sb, of "refcount x"] l holders_fresh [OF fresh]
        by auto
      then show ?thesis
        using l by (auto simp: ar cl)
    qed
  next
    fix i j x y
    assume a: "sbufs s' i = Some x" "sbufs s' j = Some y" "refcount x \<noteq> 0" "refcount y \<noteq> 0"
    consider "x = ?n" "y = ?n" | "x = ?n" "j \<noteq> this" "sbufs s j = Some y"
      | "i \<noteq> this" "sbufs s i = Some x" "y = ?n"
      | "sbufs s i = Some x" "sbufs s j = Some y"
      using old [OF a(1)] old [OF a(2)] by blast
    then show "(refcount x = refcount y) = (data x = data y)"
    proof cases
      case 1
      then show ?thesis by simp
    next
      case 2
      then show ?thesis using lo [OF 2(3) a(4)] by auto
    next
      case 3
      then show ?thesis using lo [OF 3(2) a(3)] by auto
    next
      case 4
      then show ?thesis using shared_okD_pair [OF ok 4 a(3,4)] by simp
    qed
  qed
qed

lemma shared_ok_add_empty:
  assumes ok: "shared_ok s" and fresh: "sbufs s this = None"
    and sb: "sbufs s' = (sbufs s)(this \<mapsto> \<lparr>data = 0, m_size = 0, refcount = 0\<rparr>)"
    and ar: "arrays s' = arrays s" and cl: "cells s' = cells s"
  shows "shared_ok s'"
proof -
  have old: "(x = \<lparr>data = 0, m_size = 0, refcount = 0\<rparr>) \<or> sbufs s i = Some x"
    if "sbufs s' i = Some x" for i x
    using that by (auto simp: sb split: if_splits)
  have h: "holders s' r = holders s r" if "r \<noteq> 0" for r
    using holders_sbufs_upd [OF sb, of r] that holders_fresh [OF fresh] by auto
  show ?thesis
  proof (rule shared_okI)
    show "finite (dom (sbufs s'))"
      using shared_okD_fin [OF ok] by (simp add: sb)
  next
    fix i x assume "sbufs s' i = Some x" "refcount x = 0"
    then show "data x = 0 \<and> m_size x = 0"
      using old [of i x] shared_okD_null [OF ok] by auto
  next
    fix i x assume x: "sbufs s' i = Some x" and r: "refcount x \<noteq> 0"
    then have "sbufs s i = Some x"
      using old [OF x] by auto
    from shared_okD_cnt [OF ok this r] show "data x \<noteq> 0 \<and> arrays s' (data x) \<noteq> None \<and>
        (\<exists>c. cells s' (refcount x) = Some c \<and> unat c = card (holders s' (refcount x)))"
      using h [OF r] by (simp add: ar cl)
  next
    fix i j x y
    assume a: "sbufs s' i = Some x" "sbufs s' j = Some y" "refcount x \<noteq> 0" "refcount y \<noteq> 0"
    then have "sbufs s i = Some x" "sbufs s j = Some y"
      using old [OF a(1)] old [OF a(2)] by auto
    then show "(refcount x = refcount y) = (data x = data y)"
      using shared_okD_pair [OF ok _ _ a(3,4)] by simp
  qed
qed

lemma shared_ok_move:
  assumes ok: "shared_ok s" and fresh: "sbufs s this = None" and b: "sbufs s buffer = Some b"
    and sb: "sbufs s' = (sbufs s)(this \<mapsto> b, buffer \<mapsto> \<lparr>data = 0, m_size = 0, refcount = 0\<rparr>)"
    and ar: "arrays s' = arrays s" and cl: "cells s' = cells s"
  shows "shared_ok s'"
proof -
  have ne: "this \<noteq> buffer"
    using fresh b by auto
  have fin: "finite (dom (sbufs s))"
    by (rule shared_okD_fin [OF ok])
  have old: "(x = \<lparr>data = 0, m_size = 0, refcount = 0\<rparr>) \<or> (\<exists>j. sbufs s j = Some x)"
    if "sbufs s' i = Some x" for i x
    using that b by (auto simp: sb split: if_splits)
  have h: "card (holders s' r) = card (holders s r)" if r: "r \<noteq> 0" for r
  proof (cases "refcount b = r")
    case True
    have "holders s' r = insert this (holders s r - {buffer})"
      using True r ne by (auto simp: holders_def sb)
    moreover have "buffer \<in> holders s r" "this \<notin> holders s r"
      using holders_member [OF b] True holders_fresh [OF fresh] by auto
    moreover have "finite (holders s r)"
      by (rule holders_finite [OF fin])
    moreover have "0 < card (holders s r)"
      using calculation by (auto simp: card_gt_0_iff)
    ultimately show ?thesis
      by simp
  next
    case False
    have "holders s' r = holders s r"
      using False r ne fresh b by (auto simp: holders_def sb)
    then show ?thesis by simp
  qed
  show ?thesis
  proof (rule shared_okI)
    show "finite (dom (sbufs s'))"
      using fin by (simp add: sb)
  next
    fix i x assume "sbufs s' i = Some x" "refcount x = 0"
    then show "data x = 0 \<and> m_size x = 0"
      using old [of i x] shared_okD_null [OF ok] by auto
  next
    fix i x assume x: "sbufs s' i = Some x" and r: "refcount x \<noteq> 0"
    then obtain j where "sbufs s j = Some x"
      using old [OF x] by auto
    from shared_okD_cnt [OF ok this r] show "data x \<noteq> 0 \<and> arrays s' (data x) \<noteq> None \<and>
        (\<exists>c. cells s' (refcount x) = Some c \<and> unat c = card (holders s' (refcount x)))"
      using h [OF r] by (simp add: ar cl)
  next
    fix i j x y
    assume a: "sbufs s' i = Some x" "sbufs s' j = Some y" "refcount x \<noteq> 0" "refcount y \<noteq> 0"
    then obtain i' j' where "sbufs s i' = Some x" "sbufs s j' = Some y"
      using old [OF a(1)] old [OF a(2)] by auto
    then show "(refcount x = refcount y) = (data x = data y)"
      using shared_okD_pair [OF ok _ _ a(3,4)] by simp
  qed
qed

lemma shared_ok_resize:
  assumes ok: "shared_ok s" and b: "sbufs s this = Some b"
    and sb: "sbufs s' = (sbufs s)(this \<mapsto> b\<lparr>m_size := k\<rparr>)"
    and k: "refcount b = 0 \<longrightarrow> k = 0"
    and ar: "arrays s' = arrays s" and cl: "cells s' = cells s"
  shows "shared_ok s'"
proof -
  have old: "\<exists>y. sbufs s i = Some y \<and> refcount y = refcount x \<and> data y = data x \<and>
      (refcount x = 0 \<longrightarrow> m_size x = 0 \<or> m_size x = m_size y)"
    if "sbufs s' i = Some x" for i x
    using that b k by (auto simp: sb split: if_splits)
  have h: "holders s' r = holders s r" for r
    using b by (auto simp: holders_def sb)
  show ?thesis
  proof (rule shared_okI)
    show "finite (dom (sbufs s'))"
      using shared_okD_fin [OF ok] b by (simp add: sb insert_absorb domI)
  next
    fix i x assume x: "sbufs s' i = Some x" and r: "refcount x = 0"
    from old [OF x] obtain y where y: "sbufs s i = Some y" "refcount y = refcount x"
      "data y = data x" "refcount x = 0 \<longrightarrow> m_size x = 0 \<or> m_size x = m_size y"
      by auto
    then show "data x = 0 \<and> m_size x = 0"
      using shared_okD_null [OF ok y(1)] r by auto
  next
    fix i x assume x: "sbufs s' i = Some x" and r: "refcount x \<noteq> 0"
    from old [OF x] obtain y where y: "sbufs s i = Some y" "refcount y = refcount x"
      "data y = data x"
      by blast
    from shared_okD_cnt [OF ok y(1)] r y(2,3)
    show "data x \<noteq> 0 \<and> arrays s' (data x) \<noteq> None \<and>
        (\<exists>c. cells s' (refcount x) = Some c \<and> unat c = card (holders s' (refcount x)))"
      by (simp add: ar cl h)
  next
    fix i j x y
    assume a: "sbufs s' i = Some x" "sbufs s' j = Some y" "refcount x \<noteq> 0" "refcount y \<noteq> 0"
    from old [OF a(1)] old [OF a(2)] obtain x' y' where
      "sbufs s i = Some x'" "refcount x' = refcount x" "data x' = data x"
      "sbufs s j = Some y'" "refcount y' = refcount y" "data y' = data y"
      by blast
    then show "(refcount x = refcount y) = (data x = data y)"
      using shared_okD_pair [OF ok, of i x' j y'] a(3,4) by simp
  qed
qed

lemma shared_ok_frame:
  assumes ok: "shared_ok s" and sb: "sbufs s' = sbufs s" and cl: "cells s' = cells s"
    and ar: "\<And>i b. sbufs s i = Some b \<Longrightarrow> refcount b \<noteq> 0 \<Longrightarrow> arrays s' (data b) \<noteq> None"
  shows "shared_ok s'"
proof (rule shared_okI)
  show "finite (dom (sbufs s'))"
    using shared_okD_fin [OF ok] by (simp add: sb)
next
  fix i x assume "sbufs s' i = Some x" "refcount x = 0"
  then show "data x = 0 \<and> m_size x = 0"
    using shared_okD_null [OF ok] by (simp add: sb)
next
  fix i x assume x: "sbufs s' i = Some x" and r: "refcount x \<noteq> 0"
  then have o: "sbufs s i = Some x" by (simp add: sb)
  from shared_okD_cnt [OF ok o r] ar [OF o r]
  show "data x \<noteq> 0 \<and> arrays s' (data x) \<noteq> None \<and>
        (\<exists>c. cells s' (refcount x) = Some c \<and> unat c = card (holders s' (refcount x)))"
    by (simp add: cl holders_sbufs_eq [OF sb])
next
  fix i j x y
  assume "sbufs s' i = Some x" "sbufs s' j = Some y" "refcount x \<noteq> 0" "refcount y \<noteq> 0"
  then show "(refcount x = refcount y) = (data x = data y)"
    using shared_okD_pair [OF ok] by (simp add: sb)
qed

lemma heap_ok_grow:
  assumes "heap_ok s" and "brk s \<le> brk s'"
    and "\<And>p. arrays s' p \<noteq> None \<Longrightarrow> arrays s p \<noteq> None \<or> (brk s < p \<and> p \<le> brk s')"
    and "\<And>p. cells s' p \<noteq> None \<Longrightarrow> cells s p \<noteq> None \<or> (brk s < p \<and> p \<le> brk s')"
  shows "heap_ok s'"
  unfolding heap_ok_def
proof (intro conjI allI impI)
  fix p assume "arrays s' p \<noteq> None"
  from assms(3) [OF this] show "0 < p" "p \<le> brk s'"
    using heap_okD_arrays [OF assms(1), of p] assms(2) by auto
next
  fix p assume "cells s' p \<noteq> None"
  from assms(4) [OF this] show "0 < p" "p \<le> brk s'"
    using heap_okD_cells [OF assms(1), of p] assms(2) by auto
qed

lemma buffers_okI:
  assumes "\<And>i b. bufs s i = Some b \<Longrightarrow> Buffer.data b \<noteq> 0 \<Longrightarrow> arrays s (Buffer.data b) \<noteq> None"
    and "\<And>i j b b'. bufs s i = Some b \<Longrightarrow> bufs s j = Some b' \<Longrightarrow> Buffer.data b \<noteq> 0 \<Longrightarrow>
        Buffer.data b = Buffer.data b' \<Longrightarrow> i = j"
    and "\<And>i j b b'. bufs s i = Some b \<Longrightarrow> sbufs s j = Some b' \<Longrightarrow> Buffer.data b \<noteq> 0 \<Longrightarrow>
        Buffer.data b \<noteq> data b'"
  shows "buffers_ok s"
  unfolding buffers_ok_def using assms by blast

lemma buffers_okD_alloc:
  "buffers_ok s \<Longrightarrow> bufs s i = Some b \<Longrightarrow> Buffer.data b \<noteq> 0 \<Longrightarrow> arrays s (Buffer.data b) \<noteq> None"
  unfolding buffers_ok_def by blast

lemma buffers_okD_uniq:
  "buffers_ok s \<Longrightarrow> bufs s i = Some b \<Longrightarrow> bufs s j = Some b' \<Longrightarrow> Buffer.data b \<noteq> 0 \<Longrightarrow>
     Buffer.data b = Buffer.data b' \<Longrightarrow> i = j"
  unfolding buffers_ok_def by blast

lemma buffers_okD_shared:
  "buffers_ok s \<Longrightarrow> bufs s i = Some b \<Longrightarrow> sbufs s j = Some b' \<Longrightarrow> Buffer.data b \<noteq> 0 \<Longrightarrow>
     Buffer.data b \<noteq> data b'"
  unfolding buffers_ok_def by blast

lemma buffer_data_le:
  "buffers_ok s \<Longrightarrow> heap_ok s \<Longrightarrow> bufs s i = Some b \<Longrightarrow> Buffer.data b \<le> brk s"
  using buffers_okD_alloc heap_okD_arrays by (cases "Buffer.data b = 0") fastforce+

lemma shared_data_alloc:
  assumes "shared_ok s" and "sbufs s i = Some b" and "data b \<noteq> 0"
  shows "arrays s (data b) \<noteq> None"
proof (cases "refcount b = 0")
  case True
  then show ?thesis
    using shared_okD_null [OF assms(1,2)] assms(3) by simp
next
  case False
  then show ?thesis
    using shared_okD_cnt [OF assms(1,2)] by simp
qed

lemma shared_data_le:
  "shared_ok s \<Longrightarrow> heap_ok s \<Longrightarrow> sbufs s i = Some b \<Longrightarrow> data b \<le> brk s"
  using shared_data_alloc heap_okD_arrays by (cases "data b = 0") fastforce+

text \<open>Steps that leave the Buffer objects alone.\<close>

lemma buffers_ok_shared_step:
  assumes ok: "buffers_ok s" and bf: "bufs s' = bufs s"
    and keep: "\<And>i b. bufs s i = Some b \<Longrightarrow> Buffer.data b \<noteq> 0 \<Longrightarrow> arrays s' (Buffer.data b) \<noteq> None"
    and src: "\<And>j b'. sbufs s' j = Some b' \<Longrightarrow>
        data b' = 0 \<or> (\<exists>k b''. sbufs s k = Some b'' \<and> data b'' = data b') \<or>
        (\<forall>i b. bufs s i = Some b \<longrightarrow> Buffer.data b \<noteq> data b')"
  shows "buffers_ok s'"
proof (rule buffers_okI)
  fix i b assume "bufs s' i = Some b" "Buffer.data b \<noteq> 0"
  then show "arrays s' (Buffer.data b) \<noteq> None"
    using keep by (simp add: bf)
next
  fix i j b b'
  assume "bufs s' i = Some b" "bufs s' j = Some b'" "Buffer.data b \<noteq> 0"
    "Buffer.data b = Buffer.data b'"
  then show "i = j"
    using buffers_okD_uniq [OF ok] by (simp add: bf)
next
  fix i j b b'
  assume a: "bufs s' i = Some b" "sbufs s' j = Some b'" "Buffer.data b \<noteq> 0"
  then have b: "bufs s i = Some b" by (simp add: bf)
  from src [OF a(2)] show "Buffer.data b \<noteq> data b'"
  proof (elim disjE exE conjE)
    assume "data b' = 0"
    then show ?thesis using a(3) by simp
  next
    fix k b'' assume "sbufs s k = Some b''" "data b'' = data b'"
    then show ?thesis using buffers_okD_shared [OF ok b _ a(3)] by metis
  next
    assume "\<forall>i b. bufs s i = Some b \<longrightarrow> Buffer.data b \<noteq> data b'"
    then show ?thesis using b by blast
  qed
qed

lemma state_okD: "state_ok s \<Longrightarrow> heap_ok s" "state_ok s \<Longrightarrow> shared_ok s"
  "state_ok s \<Longrightarrow> buffers_ok s"
  by (simp_all add: state_ok_def)

lemma state_ok_add_empty:
  assumes ok: "state_ok s" and fresh: "sbufs s this = None"
    and sb: "sbufs s' = (sbufs s)(this \<mapsto> \<lparr>data = 0, m_size = 0, refcount = 0\<rparr>)"
    and rest: "bufs s' = bufs s" "arrays s' = arrays s" "cells s' = cells s" "brk s' = brk s"
  shows "state_ok s'"
proof -
  have "heap_ok s'"
    using state_okD(1) [OF ok] by (simp add: heap_ok_def rest)
  moreover have "shared_ok s'"
    by (rule shared_ok_add_empty [OF state_okD(2) [OF ok] fresh sb rest(2,3)])
  moreover have "buffers_ok s'"
  proof (rule buffers_ok_shared_step [OF state_okD(3) [OF ok] rest(1)])
    fix i b assume "bufs s i = Some b" "Buffer.data b \<noteq> 0"
    then show "arrays s' (Buffer.data b) \<noteq> None"
      using buffers_okD_alloc [OF state_okD(3) [OF ok]] by (simp add: rest)
  next
    fix j b' assume "sbufs s' j = Some b'"
    then show "data b' = 0 \<or> (\<exists>k b''. sbufs s k = Some b'' \<and> data b'' = data b') \<or>
        (\<forall>i b. bufs s i = Some b \<longrightarrow> Buffer.data b \<noteq> data b')"
      by (auto simp: sb split: if_splits)
  qed
  ultimately show ?thesis
    by (simp add: state_ok_def)
qed

lemma state_ok_alloc_shared:
  assumes ok: "state_ok s" and fresh: "sbufs s this = None"
    and sb: "sbufs s' = (sbufs s)(this \<mapsto> \<lparr>data = brk s + 1, m_size = m, refcount = brk s + 2\<rparr>)"
    and ar: "arrays s' = (arrays s)(brk s + 1 \<mapsto> xs)"
    and cl: "cells s' = (cells s)(brk s + 2 \<mapsto> 1)"
    and rest: "bufs s' = bufs s" "brk s' = brk s + 2"
  shows "state_ok s'"
proof -
  note hp = state_okD(1) [OF ok] and sh = state_okD(2) [OF ok] and bo = state_okD(3) [OF ok]
  have "heap_ok s'"
    by (rule heap_ok_grow [OF hp]) (auto simp: rest ar cl split: if_splits)
  moreover have "shared_ok s'"
    by (rule shared_ok_alloc [OF sh hp fresh sb ar cl])
  moreover have "buffers_ok s'"
  proof (rule buffers_ok_shared_step [OF bo rest(1)])
    fix i b assume "bufs s i = Some b" "Buffer.data b \<noteq> 0"
    then show "arrays s' (Buffer.data b) \<noteq> None"
      using buffers_okD_alloc [OF bo] by (simp add: ar)
  next
    fix j b' assume b': "sbufs s' j = Some b'"
    have "Buffer.data b \<noteq> brk s + 1" if "bufs s i = Some b" for i b
      using buffer_data_le [OF bo hp that] by simp
    then show "data b' = 0 \<or> (\<exists>k b''. sbufs s k = Some b'' \<and> data b'' = data b') \<or>
        (\<forall>i b. bufs s i = Some b \<longrightarrow> Buffer.data b \<noteq> data b')"
      using b' by (auto simp: sb split: if_splits)
  qed
  ultimately show ?thesis
    by (simp add: state_ok_def)
qed

lemma state_ok_copy:
  assumes ok: "state_ok s" and fresh: "sbufs s this = None"
    and c: "SharedBuffer_copy_ctor ndebug this buffer s = Inr s'"
    and bound: "card (dom (sbufs s')) < 2 ^ 32"
  shows "state_ok s'"
proof -
  note hp = state_okD(1) [OF ok] and sh = state_okD(2) [OF ok] and bo = state_okD(3) [OF ok]
  from c obtain b where b: "sbufs s buffer = Some b"
    using SharedBuffer_copy_ctor_live by blast
  note eff = SharedBuffer_copy_ctor_effect [OF c b]
  have "heap_ok s'"
    by (rule heap_ok_grow [OF hp]) (use eff in \<open>auto split: if_splits option.splits\<close>)
  moreover have "shared_ok s'"
    by (rule shared_ok_copy [OF sh fresh c bound])
  moreover have "buffers_ok s'"
  proof (rule buffers_ok_shared_step [OF bo])
    show "bufs s' = bufs s" using eff by simp
  next
    fix i b assume "bufs s i = Some b" "Buffer.data b \<noteq> 0"
    then show "arrays s' (Buffer.data b) \<noteq> None"
      using buffers_okD_alloc [OF bo] eff by simp
  next
    fix j b' assume "sbufs s' j = Some b'"
    then show "data b' = 0 \<or> (\<exists>k b''. sbufs s k = Some b'' \<and> data b'' = data b') \<or>
        (\<forall>i b. bufs s i = Some b \<longrightarrow> Buffer.data b \<noteq> data b')"
      using eff b by (auto split: if_splits)
  qed
  ultimately show ?thesis
    by (simp add: state_ok_def)
qed

lemma state_ok_move:
  assumes ok: "state_ok s" and fresh: "sbufs s this = None"
    and m: "SharedBuffer_move_ctor this buffer s = Inr s'"
  shows "state_ok s'"
proof -
  note hp = state_okD(1) [OF ok] and sh = state_okD(2) [OF ok] and bo = state_okD(3) [OF ok]
  from m obtain b where b: "sbufs s buffer = Some b"
    by (auto simp: SharedBuffer_move_ctor_def split: option.splits)
  have s': "s' = s\<lparr>sbufs := (sbufs s)(this \<mapsto> b, buffer \<mapsto> \<lparr>data = 0, m_size = 0, refcount = 0\<rparr>)\<rparr>"
    using m b by (simp add: SharedBuffer_move_ctor_def)
  have "heap_ok s'"
    using hp by (simp add: heap_ok_def s')
  moreover have "shared_ok s'"
    by (rule shared_ok_move [OF sh fresh b]) (simp_all add: s')
  moreover have "buffers_ok s'"
  proof (rule buffers_ok_shared_step [OF bo])
    show "bufs s' = bufs s" by (simp add: s')
  next
    fix i b assume "bufs s i = Some b" "Buffer.data b \<noteq> 0"
    then show "arrays s' (Buffer.data b) \<noteq> None"
      using buffers_okD_alloc [OF bo] by (simp add: s')
  next
    fix j b' assume "sbufs s' j = Some b'"
    then show "data b' = 0 \<or> (\<exists>k b''. sbufs s k = Some b'' \<and> data b'' = data b') \<or>
        (\<forall>i b. bufs s i = Some b \<longrightarrow> Buffer.data b \<noteq> data b')"
      using b by (auto simp: s' split: if_splits)
  qed
  ultimately show ?thesis
    by (simp add: state_ok_def)
qed

lemma state_ok_dtor:
  assumes ok: "state_ok s" and d: "SharedBuffer_dtor ndebug this s = Inr s'"
  shows "state_ok s'"
proof -
  note hp = state_okD(1) [OF ok] and sh = state_okD(2) [OF ok] and bo = state_okD(3) [OF ok]
  from d obtain b where b: "sbufs s this = Some b"
    using SharedBuffer_dtor_live by blast
  note eff = SharedBuffer_dtor_effect [OF d b]
  have "heap_ok s'"
    by (rule heap_ok_grow [OF hp]) (use eff in \<open>auto split: if_splits option.splits\<close>)
  moreover have "shared_ok s'"
    by (rule shared_ok_dtor [OF sh d])
  moreover have "buffers_ok s'"
  proof (rule buffers_ok_shared_step [OF bo])
    show "bufs s' = bufs s" using eff by simp
  next
    fix i x assume x: "bufs s i = Some x" "Buffer.data x \<noteq> 0"
    have "Buffer.data x \<noteq> data b"
      by (rule buffers_okD_shared [OF bo x(1) b x(2)])
    then show "arrays s' (Buffer.data x) \<noteq> None"
      using buffers_okD_alloc [OF bo x] eff by (auto split: if_splits option.splits)
  next
    fix j b' assume "sbufs s' j = Some b'"
    then show "data b' = 0 \<or> (\<exists>k b''. sbufs s k = Some b'' \<and> data b'' = data b') \<or>
        (\<forall>i b. bufs s i = Some b \<longrightarrow> Buffer.data b \<noteq> data b')"
      using eff by (auto split: if_splits)
  qed
  ultimately show ?thesis
    by (simp add: state_ok_def)
qed

lemma state_ok_assign:
  assumes ok: "state_ok s" and a: "SharedBuffer_assign ndebug this buffer s = Inr s'"
    and bound: "card (dom (sbufs s')) < 2 ^ 32"
  shows "state_ok s'"
proof (cases "this = buffer")
  case True
  then show ?thesis
    using a ok by (simp add: SharedBuffer_assign_def)
next
  case False
  from a obtain s1 where d: "SharedBuffer_dtor ndebug this s = Inr s1"
    and c: "SharedBuffer_copy_ctor ndebug this buffer s1 = Inr s'"
    unfolding SharedBuffer_assign_as_dtor_copy [OF False] by (auto split: sum.splits)
  from d obtain b where b: "sbufs s this = Some b"
    using SharedBuffer_dtor_live by blast
  have "sbufs s1 this = None"
    using SharedBuffer_dtor_effect [OF d b] by simp
  then show ?thesis
    using state_ok_copy [OF state_ok_dtor [OF ok d] _ c bound] by simp
qed

lemma state_ok_shrink:
  assumes ok: "state_ok s" and r: "SharedBuffer_shrinkSize ndebug this n s = Inr s'"
  shows "state_ok s'"
proof -
  note hp = state_okD(1) [OF ok] and sh = state_okD(2) [OF ok] and bo = state_okD(3) [OF ok]
  from r obtain b where b: "sbufs s this = Some b"
    by (auto simp: SharedBuffer_shrinkSize_def split: option.splits)
  show ?thesis
  proof (cases "n \<le> ucast (m_size b)")
    case False
    then have "s' = s"
      using r b by (auto simp: SharedBuffer_shrinkSize_def split: if_splits)
    then show ?thesis using ok by simp
  next
    case True
    then have s': "s' = s\<lparr>sbufs := (sbufs s)(this \<mapsto> b\<lparr>m_size := ucast n\<rparr>)\<rparr>"
      using r b by (auto simp: SharedBuffer_shrinkSize_def split: if_splits)
    have z: "refcount b = 0 \<longrightarrow> (ucast n :: u32) = 0"
    proof
      assume "refcount b = 0"
      then have "m_size b = 0"
        using shared_okD_null [OF sh b] by simp
      then have "n = 0"
        using True by simp
      then show "(ucast n :: u32) = 0" by simp
    qed
    have "heap_ok s'"
      using hp by (simp add: heap_ok_def s')
    moreover have "shared_ok s'"
      by (rule shared_ok_resize [OF sh b _ z]) (simp_all add: s')
    moreover have "buffers_ok s'"
    proof (rule buffers_ok_shared_step [OF bo])
      show "bufs s' = bufs s" by (simp add: s')
    next
      fix i b assume "bufs s i = Some b" "Buffer.data b \<noteq> 0"
      then show "arrays s' (Buffer.data b) \<noteq> None"
        using buffers_okD_alloc [OF bo] by (simp add: s')
    next
      fix j b' assume "sbufs s' j = Some b'"
      then have "(j = this \<and> data b' = data b) \<or> sbufs s j = Some b'"
        by (auto simp: s' split: if_splits)
      then have "\<exists>k b''. sbufs s k = Some b'' \<and> data b'' = data b'"
        using b by metis
      then show "data b' = 0 \<or> (\<exists>k b''. sbufs s k = Some b'' \<and> data b'' = data b') \<or>
          (\<forall>i b. bufs s i = Some b \<longrightarrow> Buffer.data b \<noteq> data b')"
        by blast
    qed
    ultimately show ?thesis
      by (simp add: state_ok_def)
  qed
qed

text \<open>Steps that leave the SharedBuffer objects and the counters alone.\<close>

lemma state_ok_array_update:
  assumes ok: "state_ok s" and p: "arrays s p \<noteq> None"
    and s': "s' = s\<lparr>arrays := (arrays s)(p \<mapsto> ys)\<rparr>"
  shows "state_ok s'"
proof -
  note hp = state_okD(1) [OF ok] and sh = state_okD(2) [OF ok] and bo = state_okD(3) [OF ok]
  have "heap_ok s'"
    by (rule heap_ok_grow [OF hp]) (use p in \<open>auto simp: s' split: if_splits\<close>)
  moreover have "shared_ok s'"
    by (rule shared_ok_frame [OF sh])
       (use shared_okD_cnt [OF sh] in \<open>auto simp: s'\<close>)
  moreover have "buffers_ok s'"
    using bo unfolding buffers_ok_def s' by auto
  ultimately show ?thesis
    by (simp add: state_ok_def)
qed

lemma state_ok_add_buffer:
  assumes ok: "state_ok s" and fresh: "bufs s this = None"
    and s': "s' = s\<lparr>bufs := (bufs s)(this \<mapsto> \<lparr>Buffer.data = 0, Buffer.m_size = k\<rparr>)\<rparr>"
  shows "state_ok s'"
proof -
  note hp = state_okD(1) [OF ok] and sh = state_okD(2) [OF ok] and bo = state_okD(3) [OF ok]
  have "heap_ok s'"
    using hp by (simp add: heap_ok_def s')
  moreover have "shared_ok s'"
    by (rule shared_ok_frame [OF sh])
       (use shared_okD_cnt [OF sh] in \<open>auto simp: s'\<close>)
  moreover have "buffers_ok s'"
  proof (rule buffers_okI)
    fix i b assume "bufs s' i = Some b" "Buffer.data b \<noteq> 0"
    then show "arrays s' (Buffer.data b) \<noteq> None"
      using buffers_okD_alloc [OF bo] by (auto simp: s' split: if_splits)
  next
    fix i j b b'
    assume "bufs s' i = Some b" "bufs s' j = Some b'" "Buffer.data b \<noteq> 0"
      "Buffer.data b = Buffer.data b'"
    then show "i = j"
      using buffers_okD_uniq [OF bo] by (auto simp: s' split: if_splits)
  next
    fix i j b b'
    assume "bufs s' i = Some b" "sbufs s' j = Some b'" "Buffer.data b \<noteq> 0"
    then show "Buffer.data b \<noteq> data b'"
      using buffers_okD_shared [OF bo] by (auto simp: s' split: if_splits)
  qed
  ultimately show ?thesis
    by (simp add: state_ok_def)
qed

lemma state_ok_alloc_buffer:
  assumes ok: "state_ok s" and fresh: "bufs s this = None"
    and s': "s' = s\<lparr>arrays := (arrays s)(brk s + 1 \<mapsto> xs), brk := brk s + 1,
        bufs := (bufs s)(this \<mapsto> \<lparr>Buffer.data = brk s + 1, Buffer.m_size = k\<rparr>)\<rparr>"
  shows "state_ok s'"
proof -
  note hp = state_okD(1) [OF ok] and sh = state_okD(2) [OF ok] and bo = state_okD(3) [OF ok]
  have "heap_ok s'"
    by (rule heap_ok_grow [OF hp]) (auto simp: s' split: if_splits)
  moreover have "shared_ok s'"
    by (rule shared_ok_frame [OF sh])
       (use shared_okD_cnt [OF sh] in \<open>auto simp: s'\<close>)
  moreover have "buffers_ok s'"
  proof (rule buffers_okI)
    fix i b assume "bufs s' i = Some b" "Buffer.data b \<noteq> 0"
    then show "arrays s' (Buffer.data b) \<noteq> None"
      using buffers_okD_alloc [OF bo] by (auto simp: s' split: if_splits)
  next
    fix i j b b'
    assume "bufs s' i = Some b" "bufs s' j = Some b'" "Buffer.data b \<noteq> 0"
      "Buffer.data b = Buffer.data b'"
    then consider "i = this" "j = this"
      | "Buffer.data b = brk s + 1" "bufs s j = Some b'"
      | "bufs s i = Some b" "Buffer.data b' = brk s + 1"
      | "bufs s i = Some b" "bufs s j = Some b'" "Buffer.data b \<noteq> 0"
          "Buffer.data b = Buffer.data b'"
      by (auto simp: s' split: if_splits)
    then show "i = j"
    proof cases
      case 1
      then show ?thesis by simp
    next
      case 2
      then show ?thesis
        using buffer_data_le [OF bo hp 2(2)] \<open>Buffer.data b = Buffer.data b'\<close> by simp
    next
      case 3
      then show ?thesis
        using buffer_data_le [OF bo hp 3(1)] \<open>Buffer.data b = Buffer.data b'\<close> by simp
    next
      case 4
      then show ?thesis
        by (rule buffers_okD_uniq [OF bo])
    qed
  next
    fix i j b b'
    assume "bufs s' i = Some b" "sbufs s' j = Some b'" "Buffer.data b \<noteq> 0"
    then consider "Buffer.data b = brk s + 1" "sbufs s j = Some b'"
      | "bufs s i = Some b" "sbufs s j = Some b'" "Buffer.data b \<noteq> 0"
      by (auto simp: s' split: if_splits)
    then show "Buffer.data b \<noteq> data b'"
    proof cases
      case 1
      then show ?thesis
        using shared_data_le [OF sh hp 1(2)] by simp
    next
      case 2
      then show ?thesis
        by (rule buffers_okD_shared [OF bo])
    qed
  qed
  ultimately show ?thesis
    by (simp add: state_ok_def)
qed

lemma state_ok_buffer_move:
  assumes ok: "state_ok s" and fresh: "bufs s this = None" and b: "bufs s buffer = Some b"
    and s': "s' = s\<lparr>bufs := (bufs s)(this \<mapsto> b, buffer \<mapsto> \<lparr>Buffer.data = 0, Buffer.m_size = 0\<rparr>)\<rparr>"
  shows "state_ok s'"
proof -
  note hp = state_okD(1) [OF ok] and sh = state_okD(2) [OF ok] and bo = state_okD(3) [OF ok]
  have ne: "this \<noteq> buffer"
    using fresh b by auto
  have "heap_ok s'"
    using hp by (simp add: heap_ok_def s')
  moreover have "shared_ok s'"
    by (rule shared_ok_frame [OF sh])
       (use shared_okD_cnt [OF sh] in \<open>auto simp: s'\<close>)
  moreover have "buffers_ok s'"
  proof (rule buffers_okI)
    fix i x assume "bufs s' i = Some x" "Buffer.data x \<noteq> 0"
    then show "arrays s' (Buffer.data x) \<noteq> None"
      using buffers_okD_alloc [OF bo] b by (auto simp: s' split: if_splits)
  next
    fix i j x y
    assume "bufs s' i = Some x" "bufs s' j = Some y" "Buffer.data x \<noteq> 0"
      "Buffer.data x = Buffer.data y"
    then show "i = j"
      using buffers_okD_uniq [OF bo] b ne fresh
      by (auto simp: s' split: if_splits)
  next
    fix i j x y
    assume "bufs s' i = Some x" "sbufs s' j = Some y" "Buffer.data x \<noteq> 0"
    then show "Buffer.data x \<noteq> data y"
      using buffers_okD_shared [OF bo] b by (auto simp: s' split: if_splits)
  qed
  ultimately show ?thesis
    by (simp add: state_ok_def)
qed

lemma Buffer_dtor_effect:
  assumes "Buffer_dtor this s = Inr s'" and "bufs s this = Some b"
  shows "s' = s\<lparr>arrays := (if Buffer.data b = 0 then arrays s
                          else (arrays s)(Buffer.data b := None)),
                bufs := (bufs s)(this := None)\<rparr> \<and>
     (Buffer.data b \<noteq> 0 \<longrightarrow> arrays s (Buffer.data b) \<noteq> None)"
  using assms
  by (auto simp: Buffer_dtor_def Buffer_drop_def delete_array_def
      split: option.splits if_splits sum.splits)

lemma Buffer_dtor_live:
  "Buffer_dtor this s = Inr s' \<Longrightarrow> \<exists>b. bufs s this = Some b"
  by (auto simp: Buffer_dtor_def Buffer_drop_def split: option.splits sum.splits)

lemma state_ok_buffer_dtor:
  assumes ok: "state_ok s" and d: "Buffer_dtor this s = Inr s'"
  shows "state_ok s'"
proof -
  note hp = state_okD(1) [OF ok] and sh = state_okD(2) [OF ok] and bo = state_okD(3) [OF ok]
  from d obtain b where b: "bufs s this = Some b"
    using Buffer_dtor_live by blast
  from Buffer_dtor_effect [OF d b]
  have s': "s' = s\<lparr>arrays := (if Buffer.data b = 0 then arrays s
                          else (arrays s)(Buffer.data b := None)),
                bufs := (bufs s)(this := None)\<rparr>"
    by simp
  have "heap_ok s'"
    by (rule heap_ok_grow [OF hp]) (auto simp: s' split: if_splits)
  moreover have "shared_ok s'"
  proof (rule shared_ok_frame [OF sh])
    fix i x assume x: "sbufs s i = Some x" "refcount x \<noteq> 0"
    have "Buffer.data b \<noteq> 0 \<Longrightarrow> Buffer.data b \<noteq> data x"
      by (rule buffers_okD_shared [OF bo b x(1)])
    then show "arrays s' (data x) \<noteq> None"
      using shared_okD_cnt [OF sh x] by (auto simp: s')
  qed (simp_all add: s')
  moreover have "buffers_ok s'"
  proof (rule buffers_okI)
    fix i x assume x: "bufs s' i = Some x" "Buffer.data x \<noteq> 0"
    then have i: "i \<noteq> this" "bufs s i = Some x"
      by (auto simp: s' split: if_splits)
    have "Buffer.data x \<noteq> Buffer.data b"
      using buffers_okD_uniq [OF bo i(2) b x(2)] i(1) by auto
    then show "arrays s' (Buffer.data x) \<noteq> None"
      using buffers_okD_alloc [OF bo i(2) x(2)] by (simp add: s')
  next
    fix i j x y
    assume "bufs s' i = Some x" "bufs s' j = Some y" "Buffer.data x \<noteq> 0"
      "Buffer.data x = Buffer.data y"
    then show "i = j"
      using buffers_okD_uniq [OF bo] by (auto simp: s' split: if_splits)
  next
    fix i j x y
    assume "bufs s' i = Some x" "sbufs s' j = Some y" "Buffer.data x \<noteq> 0"
    then show "Buffer.data x \<noteq> data y"
      using buffers_okD_shared [OF bo] by (auto simp: s' split: if_splits)
  qed
  ultimately show ?thesis
    by (simp add: state_ok_def)
qed

lemma state_ok_buffer_resize:
  assumes ok: "state_ok s" and b: "bufs s this = Some b"
    and s': "s' = s\<lparr>bufs := (bufs s)(this \<mapsto> b\<lparr>Buffer.m_size := k\<rparr>)\<rparr>"
  shows "state_ok s'"
proof -
  note hp = state_okD(1) [OF ok] and sh = state_okD(2) [OF ok] and bo = state_okD(3) [OF ok]
  have old: "\<exists>y. bufs s i = Some y \<and> Buffer.data y = Buffer.data x"
    if "bufs s' i = Some x" for i x
    using that b by (cases "i = this") (auto simp: s')
  have "heap_ok s'"
    using hp by (simp add: heap_ok_def s')
  moreover have "shared_ok s'"
    by (rule shared_ok_frame [OF sh])
       (use shared_okD_cnt [OF sh] in \<open>auto simp: s'\<close>)
  moreover have "buffers_ok s'"
  proof (rule buffers_okI)
    fix i x assume x: "bufs s' i = Some x" "Buffer.data x \<noteq> 0"
    from old [OF x(1)] obtain y where "bufs s i = Some y" "Buffer.data y = Buffer.data x"
      by blast
    then show "arrays s' (Buffer.data x) \<noteq> None"
      using buffers_okD_alloc [OF bo, of i y] x(2) by (simp add: s')
  next
    fix i j x y
    assume a: "bufs s' i = Some x" "bufs s' j = Some y" "Buffer.data x \<noteq> 0"
      "Buffer.data x = Buffer.data y"
    from old [OF a(1)] old [OF a(2)] obtain x' y' where
      "bufs s i = Some x'" "Buffer.data x' = Buffer.data x"
      "bufs s j = Some y'" "Buffer.data y' = Buffer.data y"
      by blast
    then show "i = j"
      using buffers_okD_uniq [OF bo, of i x' j y'] a(3,4) by simp
  next
    fix i j x y
    assume a: "bufs s' i = Some x" "sbufs s' j = Some y" "Buffer.data x \<noteq> 0"
    from old [OF a(1)] obtain x' where "bufs s i = Some x'" "Buffer.data x' = Buffer.data x"
      by blast
    then show "Buffer.data x \<noteq> data y"
      using buffers_okD_shared [OF bo, of i x' j y] a(2,3) by (simp add: s')
  qed
  ultimately show ?thesis
    by (simp add: state_ok_def)
qed

lemma state_ok_buffer_move_ctor:
  assumes ok: "state_ok s" and fresh: "bufs s this = None"
    and m: "Buffer_move_ctor this buffer s = Inr s'"
  shows "state_ok s'"
proof -
  from m obtain b where b: "bufs s buffer = Some b"
    by (auto simp: Buffer_move_ctor_def split: option.splits)
  show ?thesis
  proof (cases "Buffer.m_size b = 0")
    case True
    then have "s' = s\<lparr>bufs := (bufs s)(this \<mapsto> \<lparr>Buffer.data = 0, Buffer.m_size = 0\<rparr>)\<rparr>"
      using m b by (simp add: Buffer_move_ctor_def)
    then show ?thesis
      by (rule state_ok_add_buffer [OF ok fresh])
  next
    case False
    then have "s' = s\<lparr>bufs := (bufs s)
        (this \<mapsto> b, buffer \<mapsto> \<lparr>Buffer.data = 0, Buffer.m_size = 0\<rparr>)\<rparr>"
      using m b by (simp add: Buffer_move_ctor_def)
    then show ?thesis
      by (rule state_ok_buffer_move [OF ok fresh b])
  qed
qed

lemma Buffer_move_assign_as_dtor_move:
  assumes "this \<noteq> buffer"
  shows "Buffer_move_assign this buffer s =
     (case Buffer_dtor this s of
        Inl e \<Rightarrow> Inl e
      | Inr s1 \<Rightarrow> Buffer_move_ctor this buffer s1)"
  using assms
  by (auto simp: Buffer_move_assign_def Buffer_dtor_def Buffer_move_ctor_def
      Buffer_drop_def delete_array_def split: sum.splits option.splits)

lemma state_ok_buffer_move_assign:
  assumes ok: "state_ok s" and a: "Buffer_move_assign this buffer s = Inr s'"
  shows "state_ok s'"
proof (cases "this = buffer")
  case True
  then show ?thesis
    using a ok by (simp add: Buffer_move_assign_def)
next
  case False
  from a obtain s1 where d: "Buffer_dtor this s = Inr s1"
    and m: "Buffer_move_ctor this buffer s1 = Inr s'"
    unfolding Buffer_move_assign_as_dtor_move [OF False] by (auto split: sum.splits)
  from d obtain b where b: "bufs s this = Some b"
    using Buffer_dtor_live by blast
  have "bufs s1 this = None"
    using Buffer_dtor_effect [OF d b] by simp
  then show ?thesis
    using state_ok_buffer_move_ctor [OF state_ok_buffer_dtor [OF ok d] _ m] by simp
qed

lemma state_ok_buffer_from_span:
  assumes ok: "state_ok s" and fresh: "bufs s this = None"
    and f: "Buffer_from_span this t n s = Inr s'"
  shows "state_ok s'"
proof (cases "n = 0")
  case True
  then have "s' = s\<lparr>bufs := (bufs s)(this \<mapsto> \<lparr>Buffer.data = 0, Buffer.m_size = 0\<rparr>)\<rparr>"
    using f by (simp add: Buffer_from_span_def)
  then show ?thesis
    by (rule state_ok_add_buffer [OF ok fresh])
next
  case False
  then obtain xs where "s' = s\<lparr>arrays := (arrays s)(brk s + 1 \<mapsto> xs), brk := brk s + 1,
        bufs := (bufs s)(this \<mapsto> \<lparr>Buffer.data = brk s + 1, Buffer.m_size = n\<rparr>)\<rparr>"
    using f by (auto simp: Buffer_from_span_def new_array_def Let_def split: sum.splits)
  then show ?thesis
    by (rule state_ok_alloc_buffer [OF ok fresh])
qed

lemma state_ok_buffer_new:
  assumes ok: "state_ok s" and fresh: "bufs s this = None"
  shows "state_ok (Buffer_new this n junk s)"
proof (cases "n = 0")
  case True
  then have "Buffer_new this n junk s =
      s\<lparr>bufs := (bufs s)(this \<mapsto> \<lparr>Buffer.data = 0, Buffer.m_size = 0\<rparr>)\<rparr>"
    by (simp add: Buffer_new_def)
  then show ?thesis
    by (rule state_ok_add_buffer [OF ok fresh])
next
  case False
  then have "Buffer_new this n junk s =
      s\<lparr>arrays := (arrays s)(brk s + 1 \<mapsto> map junk [0..<unat n]), brk := brk s + 1,
        bufs := (bufs s)(this \<mapsto> \<lparr>Buffer.data = brk s + 1, Buffer.m_size = n\<rparr>)\<rparr>"
    by (simp add: Buffer_new_def new_array_def Let_def)
  then show ?thesis
    by (rule state_ok_alloc_buffer [OF ok fresh])
qed

lemma state_ok_from_span:
  assumes ok: "state_ok s" and fresh: "sbufs s this = None"
    and f: "SharedBuffer_from_span this t n s = Inr s'"
  shows "state_ok s'"
proof (cases "(ucast n :: u32) = 0")
  case True
  then have "s' = s\<lparr>sbufs := (sbufs s)(this \<mapsto> \<lparr>data = 0, m_size = 0, refcount = 0\<rparr>)\<rparr>"
    using f by (simp add: SharedBuffer_from_span_def)
  then show ?thesis
    by (intro state_ok_add_empty [OF ok fresh]) simp_all
next
  case False
  then obtain xs where "s' = s\<lparr>arrays := (arrays s)(brk s + 1 \<mapsto> xs),
        cells := (cells s)(brk s + 2 \<mapsto> 1), brk := brk s + 2,
        sbufs := (sbufs s)
          (this \<mapsto> \<lparr>data = brk s + 1, m_size = ucast n, refcount = brk s + 2\<rparr>)\<rparr>"
    using f
    by (auto simp: SharedBuffer_from_span_def new_array_def new_u32_def Let_def
        split: sum.splits)
  then show ?thesis
    by (intro state_ok_alloc_shared [OF ok fresh, where xs = xs]) simp_all
qed

lemma state_ok_new:
  assumes ok: "state_ok s" and fresh: "sbufs s this = None"
  shows "state_ok (SharedBuffer_new this n s)"
proof (cases "(ucast n :: u32) = 0")
  case True
  then have "SharedBuffer_new this n s =
      s\<lparr>sbufs := (sbufs s)(this \<mapsto> \<lparr>data = 0, m_size = 0, refcount = 0\<rparr>)\<rparr>"
    by (simp add: SharedBuffer_new_def)
  then show ?thesis
    by (intro state_ok_add_empty [OF ok fresh]) simp_all
next
  case False
  then have "SharedBuffer_new this n s =
      s\<lparr>arrays := (arrays s)(brk s + 1 \<mapsto> replicate (unat (ucast n :: u32)) 0),
        cells := (cells s)(brk s + 2 \<mapsto> 1), brk := brk s + 2,
        sbufs := (sbufs s)
          (this \<mapsto> \<lparr>data = brk s + 1, m_size = ucast n, refcount = brk s + 2\<rparr>)\<rparr>"
    by (simp add: SharedBuffer_new_def new_array_def new_u32_def Let_def)
  then show ?thesis
    by (intro state_ok_alloc_shared [OF ok fresh,
          where xs = "replicate (unat (ucast n :: u32)) 0"]) simp_all
qed

lemma Buffer_copyTo_as_dtor:
  assumes "Buffer_copyTo this buffer junk s = Inr s'"
  shows "\<exists>s1 k. Buffer_dtor buffer s = Inr s1 \<and>
     (s' = s1\<lparr>bufs := (bufs s1)(buffer \<mapsto> \<lparr>Buffer.data = 0, Buffer.m_size = k\<rparr>)\<rparr> \<or>
      (\<exists>xs. s' = s1\<lparr>arrays := (arrays s1)(brk s1 + 1 \<mapsto> xs), brk := brk s1 + 1,
         bufs := (bufs s1)(buffer \<mapsto> \<lparr>Buffer.data = brk s1 + 1, Buffer.m_size = k\<rparr>)\<rparr>))"
proof -
  from assms obtain s0 where d0: "Buffer_drop buffer s = Inr s0"
    by (auto simp: Buffer_copyTo_def split: sum.splits)
  then obtain s1 where d: "Buffer_dtor buffer s = Inr s1"
    and s1: "s1 = s0\<lparr>bufs := (bufs s0)(buffer := None)\<rparr>"
    by (simp add: Buffer_dtor_def)
  from assms d0 obtain t where t: "bufs s0 this = Some t"
    by (auto simp: Buffer_copyTo_def split: option.splits)
  show ?thesis
  proof (cases "Buffer.m_size t = 0")
    case True
    then have "s' = s1\<lparr>bufs := (bufs s1)
        (buffer \<mapsto> \<lparr>Buffer.data = 0, Buffer.m_size = Buffer.m_size t\<rparr>)\<rparr>"
      using assms d0 t by (simp add: Buffer_copyTo_def s1)
    then show ?thesis
      using d by blast
  next
    case False
    let ?p = "brk s0 + 1"
    let ?s3 = "s0\<lparr>arrays := (arrays s0)(?p \<mapsto> map junk [0..<unat (Buffer.m_size t)]),
        brk := ?p,
        bufs := (bufs s0)(buffer \<mapsto> \<lparr>Buffer.data = ?p, Buffer.m_size = Buffer.m_size t\<rparr>)\<rparr>"
    from assms d0 t False obtain xs where
      "s' = ?s3\<lparr>arrays := (arrays ?s3)(?p \<mapsto> xs)\<rparr>"
      by (auto simp: Buffer_copyTo_def new_array_def Let_def
          split: option.splits sum.splits if_splits)
    then have "s' = s1\<lparr>arrays := (arrays s1)(brk s1 + 1 \<mapsto> xs), brk := brk s1 + 1,
         bufs := (bufs s1)
           (buffer \<mapsto> \<lparr>Buffer.data = brk s1 + 1, Buffer.m_size = Buffer.m_size t\<rparr>)\<rparr>"
      by (simp add: s1)
    then show ?thesis
      using d by blast
  qed
qed

lemma state_ok_buffer_copyTo:
  assumes ok: "state_ok s" and c: "Buffer_copyTo this buffer junk s = Inr s'"
  shows "state_ok s'"
proof -
  from Buffer_copyTo_as_dtor [OF c] obtain s1 k where
    d: "Buffer_dtor buffer s = Inr s1" and
    s': "s' = s1\<lparr>bufs := (bufs s1)(buffer \<mapsto> \<lparr>Buffer.data = 0, Buffer.m_size = k\<rparr>)\<rparr> \<or>
      (\<exists>xs. s' = s1\<lparr>arrays := (arrays s1)(brk s1 + 1 \<mapsto> xs), brk := brk s1 + 1,
         bufs := (bufs s1)(buffer \<mapsto> \<lparr>Buffer.data = brk s1 + 1, Buffer.m_size = k\<rparr>)\<rparr>)"
    by blast
  have ok1: "state_ok s1"
    by (rule state_ok_buffer_dtor [OF ok d])
  from d obtain b where b: "bufs s buffer = Some b"
    using Buffer_dtor_live by blast
  have fresh: "bufs s1 buffer = None"
    using Buffer_dtor_effect [OF d b] by simp
  from s' show ?thesis
  proof (elim disjE exE)
    assume "s' = s1\<lparr>bufs := (bufs s1)(buffer \<mapsto> \<lparr>Buffer.data = 0, Buffer.m_size = k\<rparr>)\<rparr>"
    then show ?thesis
      by (rule state_ok_add_buffer [OF ok1 fresh])
  next
    fix xs
    assume "s' = s1\<lparr>arrays := (arrays s1)(brk s1 + 1 \<mapsto> xs), brk := brk s1 + 1,
         bufs := (bufs s1)(buffer \<mapsto> \<lparr>Buffer.data = brk s1 + 1, Buffer.m_size = k\<rparr>)\<rparr>"
    then show ?thesis
      by (rule state_ok_alloc_buffer [OF ok1 fresh])
  qed
qed

lemma step_state_ok:
  assumes "step ndebug s s'" and "state_ok s" and "card (dom (sbufs s')) < 2 ^ 32"
  shows "state_ok s'"
  using assms
proof (induction rule: step.induct)
  case (SharedBuffer_default_step s this)
  show ?case
    by (rule state_ok_add_empty [OF SharedBuffer_default_step(2,1)])
       (simp_all add: SharedBuffer_default_def)
next
  case (SharedBuffer_new_step s this n)
  show ?case
    by (rule state_ok_new [OF SharedBuffer_new_step(2,1)])
next
  case (SharedBuffer_copy_ctor_step s this buffer s')
  show ?case
    by (rule state_ok_copy [OF SharedBuffer_copy_ctor_step(3,1,2,4)])
next
  case (SharedBuffer_move_ctor_step s this buffer s')
  show ?case
    by (rule state_ok_move [OF SharedBuffer_move_ctor_step(3,1,2)])
next
  case (SharedBuffer_assign_step this buffer s s')
  show ?case
    by (rule state_ok_assign [OF SharedBuffer_assign_step(2,1,3)])
next
  case (SharedBuffer_from_span_step s this t n s')
  show ?case
    by (rule state_ok_from_span [OF SharedBuffer_from_span_step(3,1,2)])
next
  case (SharedBuffer_from_Buffer_step s this buffer s')
  from SharedBuffer_from_Buffer_step(2) obtain b :: Buffer where
    "SharedBuffer_from_span this (Buffer.data b) (Buffer.m_size b) s = Inr s'"
    by (auto simp: SharedBuffer_from_Buffer_def split: option.splits)
  then show ?case
    by (rule state_ok_from_span [OF SharedBuffer_from_Buffer_step(3,1)])
next
  case (SharedBuffer_dtor_step this s s')
  show ?case
    by (rule state_ok_dtor [OF SharedBuffer_dtor_step(2,1)])
next
  case (SharedBuffer_shrinkSize_step this n s s')
  show ?case
    by (rule state_ok_shrink [OF SharedBuffer_shrinkSize_step(2,1)])
next
  case (SharedBuffer_index_set_step this i v s s')
  from SharedBuffer_index_set_step(1) obtain p ys where
    "arrays s p \<noteq> None" "s' = s\<lparr>arrays := (arrays s)(p \<mapsto> ys)\<rparr>"
    by (auto simp: SharedBuffer_index_set_def split: option.splits if_splits)
  then show ?case
    by (rule state_ok_array_update [OF SharedBuffer_index_set_step(2)])
next
  case (SharedBuffer_to_Buffer_step s dest this s')
  from SharedBuffer_to_Buffer_step(2) obtain b :: SharedBuffer where
    "Buffer_from_span dest (data b) (ucast (m_size b)) s = Inr s'"
    by (auto simp: SharedBuffer_to_Buffer_def split: option.splits)
  then show ?case
    by (rule state_ok_buffer_from_span [OF SharedBuffer_to_Buffer_step(3,1)])
next
  case (Buffer_default_step s this)
  show ?case
    by (rule state_ok_add_buffer [OF Buffer_default_step(2,1)])
       (simp add: Buffer_default_def)
next
  case (Buffer_new_step s this n junk)
  show ?case
    by (rule state_ok_buffer_new [OF Buffer_new_step(2,1)])
next
  case (Buffer_move_ctor_step s this buffer s')
  show ?case
    by (rule state_ok_buffer_move_ctor [OF Buffer_move_ctor_step(3,1,2)])
next
  case (Buffer_from_span_step s this t n s')
  show ?case
    by (rule state_ok_buffer_from_span [OF Buffer_from_span_step(3,1,2)])
next
  case (Buffer_dtor_step this s s')
  show ?case
    by (rule state_ok_buffer_dtor [OF Buffer_dtor_step(2,1)])
next
  case (Buffer_move_assign_step this buffer s s')
  show ?case
    by (rule state_ok_buffer_move_assign [OF Buffer_move_assign_step(2,1)])
next
  case (Buffer_copyTo_step this buffer junk s s')
  show ?case
    by (rule state_ok_buffer_copyTo [OF Buffer_copyTo_step(2,1)])
next
  case (Buffer_shrinkSize_step this n s s')
  from Buffer_shrinkSize_step(1) obtain b where b: "bufs s this = Some b"
    by (auto simp: Buffer_shrinkSize_def split: option.splits)
  then have "s' = s \<or> s' = s\<lparr>bufs := (bufs s)(this \<mapsto> b\<lparr>Buffer.m_size := n\<rparr>)\<rparr>"
    using Buffer_shrinkSize_step(1)
    by (auto simp: Buffer_shrinkSize_def split: if_splits)
  then show ?case
    using Buffer_shrinkSize_step(2) state_ok_buffer_resize [OF Buffer_shrinkSize_step(2) b]
    by blast
next
  case (Buffer_index_set_step this i v s s')
  from Buffer_index_set_step(1) obtain p ys where
    "arrays s p \<noteq> None" "s' = s\<lparr>arrays := (arrays s)(p \<mapsto> ys)\<rparr>"
    by (auto simp: Buffer_index_set_def split: option.splits if_splits)
  then show ?case
    by (rule state_ok_array_update [OF Buffer_index_set_step(2)])
qed

lemma init_state_ok: "state_ok init_state"
  by (simp add: state_ok_def heap_ok_def shared_ok_def buffers_ok_def init_state_def)

lemma reachable_state_ok:
  assumes "reachable ndebug N s" and "N < 2 ^ 32"
  shows "state_ok s"
  using assms
proof (induction rule: reachable.induct)
  case reachable_init
  show ?case by (rule init_state_ok)
next
  case (reachable_step s s')
  then show ?case
    by (intro step_state_ok [of ndebug s s']) simp_all
qed

lemma replicate_1: "replicate 1 x = [x]"
  by simp

lemma minus_1_u32: "(- 1 :: u32) = 4294967295"
  by simp

lemma crowd_0: "SharedBuffer_new 0 1 init_state = crowd 0"
  by (auto simp: SharedBuffer_new_def init_state_def new_array_def new_u32_def crowd_def Let_def
      fun_eq_iff replicate_1 simp del: One_nat_def)

lemma crowd_Suc:
  "SharedBuffer_copy_ctor ndebug (Suc n) 0 (crowd n) = Inr (crowd (Suc n))"
  by (auto simp: SharedBuffer_copy_ctor_def crowd_def fun_eq_iff add.commute simp del: One_nat_def)

lemma crowd_dom: "dom (sbufs (crowd n)) = {..n}"
  by (auto simp: crowd_def split: if_splits)

lemma crowd_holders: "holders (crowd n) 2 = {..n}"
  by (auto simp: crowd_def holders_def)

lemma crowd_reachable: "Suc n \<le> N \<Longrightarrow> reachable ndebug N (crowd n)"
proof (induction n)
  case 0
  have "step ndebug init_state (SharedBuffer_new 0 1 (init_state :: u8 state))"
    by (rule SharedBuffer_new_step) (simp add: init_state_def)
  then have "step ndebug init_state (crowd 0)"
    by (simp add: crowd_0)
  then show ?case
    using 0 by (intro reachable_step [OF reachable_init]) (simp_all add: crowd_dom)
next
  case (Suc n)
  then have r: "reachable ndebug N (crowd n)" by simp
  have "SharedBuffer_copy_ctor ndebug (Suc n) 0 (crowd n) = Inr (crowd (Suc n))"
    by (rule crowd_Suc)
  then have "step ndebug (crowd n) (crowd (Suc n))"
    by (intro SharedBuffer_copy_ctor_step [of _ "Suc n"]) (simp_all add: crowd_def)
  then show ?case
    using Suc.prems by (intro reachable_step [OF r]) (simp_all add: crowd_dom)
qed

text \<open>
  Claim C4, as stated: at every reachable state the counter of a non-empty instance
  equals the number of live instances that reference its allocation, and a decrement
  that would underflow is an assertion failure. The counter is a \<^verbatim>\<open>u32\<close> (lines 155, 269).
  After \<^verbatim>\<open>SharedBuffer<u8>(1)\<close> and \<open>2\<^sup>3\<^sup>2 - 1\<close> copy constructions from it, the
  allocation has \<open>2\<^sup>3\<^sup>2\<close> holders and its counter is 0. Destroying a holder then fails the
  \<^verbatim>\<open>assert\<close> of line 259 in a build with assertions; under \<^verbatim>\<open>NDEBUG\<close> the decrement of
  \<^verbatim>\<open>drop()\<close> wraps the counter to \<open>2\<^sup>3\<^sup>2 - 1\<close>.
\<close>

theorem SharedBuffer_refcount_overflow_counterexample:
  "reachable False 4294967296 (crowd 4294967295) \<and>
   reachable True 4294967296 (crowd 4294967295) \<and>
   sbufs (crowd 4294967295) 0 = Some \<lparr>data = 1, m_size = 1, refcount = 2\<rparr> \<and>
   cells (crowd 4294967295) 2 = Some 0 \<and>
   card (holders (crowd 4294967295) 2) = 4294967296 \<and>
   SharedBuffer_dtor False 0 (crowd 4294967295) = Inl AssertionFailed \<and>
   SharedBuffer_drop True 0 (crowd 4294967295) =
     Inr ((crowd 4294967295)\<lparr>cells := [2 \<mapsto> 4294967295]\<rparr>)"
proof -
  have c: "cells (crowd 4294967295) 2 = Some 0" "cells (crowd 4294967295) = [2 \<mapsto> 0]"
    by (simp_all add: crowd_def two_32_u32)
  have b: "sbufs (crowd 4294967295) 0 = Some \<lparr>data = 1, m_size = 1, refcount = 2\<rparr>"
    by (simp add: crowd_def)
  have d: "SharedBuffer_drop False 0 (crowd 4294967295) = Inl AssertionFailed"
    by (simp add: SharedBuffer_drop_def b c)
  have e: "SharedBuffer_drop True 0 (crowd 4294967295) =
     Inr ((crowd 4294967295)\<lparr>cells := [2 \<mapsto> 4294967295]\<rparr>)"
    by (simp add: SharedBuffer_drop_def b c minus_1_u32)
  show ?thesis
    using crowd_reachable [of 4294967295 4294967296] b c(1) d e
    by (simp add: crowd_holders SharedBuffer_dtor_def)
qed

lemma SharedBuffer_dtor_total:
  assumes "sbufs s this = Some b" and "refcount b \<noteq> 0" and "cells s (refcount b) = Some c"
    and "c \<noteq> 0" and "data b \<noteq> 0" and "arrays s (data b) \<noteq> None"
  shows "\<exists>s'. SharedBuffer_dtor ndebug this s = Inr s' \<and>
      sbufs s' = (sbufs s)(this := None) \<and> bufs s' = bufs s \<and> brk s' = brk s \<and>
      (if c = 1
       then cells s' = (cells s)(refcount b := None) \<and> arrays s' = (arrays s)(data b := None)
       else cells s' = (cells s)(refcount b \<mapsto> c - 1) \<and> arrays s' = arrays s)"
  using assms
  by (auto simp: SharedBuffer_dtor_def SharedBuffer_drop_def delete_array_def delete_u32_def
      Let_def word_greater_zero_iff)

lemma last_holder:
  assumes ok: "shared_ok s" and b: "sbufs s this = Some b" and r: "refcount b \<noteq> 0"
    and c: "cells s (refcount b) = Some 1"
    and x: "sbufs s j = Some x" and j: "j \<noteq> this"
  shows "refcount x \<noteq> refcount b \<and> data x \<noteq> data b"
proof -
  from shared_okD_cnt [OF ok b r] c have card1: "card (holders s (refcount b)) = 1"
    by simp
  have fin: "finite (holders s (refcount b))"
    by (rule holders_finite [OF shared_okD_fin [OF ok]])
  have ne: "refcount x \<noteq> refcount b"
  proof
    assume "refcount x = refcount b"
    then have "{j, this} \<subseteq> holders s (refcount b)"
      using holders_member [OF x] holders_member [OF b] by simp
    then have "card {j, this} \<le> card (holders s (refcount b))"
      using fin by (intro card_mono)
    then show False
      using j card1 by simp
  qed
  moreover have "data x \<noteq> data b"
  proof (cases "refcount x = 0")
    case True
    then show ?thesis
      using shared_okD_null [OF ok x] shared_okD_cnt [OF ok b r] by simp
  next
    case False
    then show ?thesis
      using shared_okD_pair [OF ok x b False r] ne by simp
  qed
  ultimately show ?thesis by simp
qed

text \<open>
  Claim C4, amended. Take a state \<open>s\<close> reached by a single-threaded execution in which
  fewer than \<open>2\<^sup>3\<^sup>2\<close> \<^verbatim>\<open>SharedBuffer\<close> objects are alive at any time, and a live
  \<^verbatim>\<open>SharedBuffer\<close> object with members \<open>b\<close>.
  \<^item> If the object is non-empty (its size or its data pointer is not zero) its counter
    pointer is not null.
  \<^item> If the counter pointer is null, destruction ends the object's lifetime and changes
    nothing else.
  \<^item> If the counter pointer is not null, the counter cell is allocated and its value
    \<open>c\<close> is the number of live objects with that counter pointer, so \<open>c\<close> is positive;
    the array is allocated; destruction succeeds; when \<open>c\<close> is not 1 it stores \<open>c - 1\<close>
    and releases nothing; when \<open>c = 1\<close> it releases the array and the counter cell
    together, and no object that is still alive points to either of them, so they are
    not released or accessed again.
  \<^item> In any state \<open>s\<^sub>0\<close>, reachable or not, and a build with assertions, the decrement
    of a counter that is 0 is an assertion failure.
\<close>

theorem SharedBuffer_refcount_invariant:
  assumes "reachable ndebug N s" and "N < 2 ^ 32" and "sbufs s this = Some b"
  shows "(m_size b \<noteq> 0 \<or> data b \<noteq> 0 \<longrightarrow> refcount b \<noteq> 0) \<and>
    (refcount b = 0 \<longrightarrow>
       SharedBuffer_dtor ndebug this s = Inr (s\<lparr>sbufs := (sbufs s)(this := None)\<rparr>)) \<and>
    (refcount b \<noteq> 0 \<longrightarrow>
       (\<exists>c s'. cells s (refcount b) = Some c \<and> unat c = card (holders s (refcount b)) \<and>
          c \<noteq> 0 \<and> arrays s (data b) \<noteq> None \<and>
          SharedBuffer_dtor ndebug this s = Inr s' \<and>
          sbufs s' = (sbufs s)(this := None) \<and>
          (if c = 1
           then cells s' = (cells s)(refcount b := None) \<and>
                arrays s' = (arrays s)(data b := None) \<and>
                (\<forall>j x. sbufs s' j = Some x \<longrightarrow>
                   refcount x \<noteq> refcount b \<and> data x \<noteq> data b)
           else cells s' = (cells s)(refcount b \<mapsto> c - 1) \<and> arrays s' = arrays s))) \<and>
    (sbufs s0 t = Some b0 \<longrightarrow> refcount b0 \<noteq> 0 \<longrightarrow> cells s0 (refcount b0) = Some 0 \<longrightarrow>
       SharedBuffer_drop False t s0 = Inl AssertionFailed \<and>
       SharedBuffer_dtor False t s0 = Inl AssertionFailed)"
proof -
  have ok: "state_ok s"
    by (rule reachable_state_ok [OF assms(1,2)])
  note sh = state_okD(2) [OF ok]
  note b = assms(3)
  have p1: "m_size b \<noteq> 0 \<or> data b \<noteq> 0 \<longrightarrow> refcount b \<noteq> 0"
    using shared_okD_null [OF sh b] by (cases "refcount b = 0") simp_all
  have p2: "SharedBuffer_dtor ndebug this s = Inr (s\<lparr>sbufs := (sbufs s)(this := None)\<rparr>)"
    if "refcount b = 0"
    using that b by (simp add: SharedBuffer_dtor_def SharedBuffer_drop_def)
  have p3: "\<exists>c s'. cells s (refcount b) = Some c \<and> unat c = card (holders s (refcount b)) \<and>
          c \<noteq> 0 \<and> arrays s (data b) \<noteq> None \<and>
          SharedBuffer_dtor ndebug this s = Inr s' \<and>
          sbufs s' = (sbufs s)(this := None) \<and>
          (if c = 1
           then cells s' = (cells s)(refcount b := None) \<and>
                arrays s' = (arrays s)(data b := None) \<and>
                (\<forall>j x. sbufs s' j = Some x \<longrightarrow>
                   refcount x \<noteq> refcount b \<and> data x \<noteq> data b)
           else cells s' = (cells s)(refcount b \<mapsto> c - 1) \<and> arrays s' = arrays s)"
    if r: "refcount b \<noteq> 0"
  proof -
    from shared_okD_cnt [OF sh b r] obtain c where
      d: "data b \<noteq> 0" "arrays s (data b) \<noteq> None" and
      c: "cells s (refcount b) = Some c" "unat c = card (holders s (refcount b))"
      by blast
    have "0 < card (holders s (refcount b))"
      using holders_member [OF b] holders_finite [OF shared_okD_fin [OF sh]]
      by (auto simp: card_gt_0_iff)
    then have c0: "c \<noteq> 0"
      using c(2) by auto
    from SharedBuffer_dtor_total [OF b r c(1) c0 d, of ndebug] obtain s' where
      s': "SharedBuffer_dtor ndebug this s = Inr s'" "sbufs s' = (sbufs s)(this := None)"
        "if c = 1
         then cells s' = (cells s)(refcount b := None) \<and> arrays s' = (arrays s)(data b := None)
         else cells s' = (cells s)(refcount b \<mapsto> c - 1) \<and> arrays s' = arrays s"
      by blast
    have gone: "refcount x \<noteq> refcount b \<and> data x \<noteq> data b"
      if "c = 1" "sbufs s' j = Some x" for j x
    proof -
      from that(2) have "j \<noteq> this" "sbufs s j = Some x"
        by (auto simp: s'(2) split: if_splits)
      then show ?thesis
        using last_holder [OF sh b r _ _ \<open>j \<noteq> this\<close>] c(1) that(1) by simp
    qed
    show ?thesis
      using c c0 d(2) s' gone by (cases "c = 1") auto
  qed
  have p4: "SharedBuffer_drop False t s0 = Inl AssertionFailed \<and>
       SharedBuffer_dtor False t s0 = Inl AssertionFailed"
    if "sbufs s0 t = Some b0" "refcount b0 \<noteq> 0" "cells s0 (refcount b0) = Some 0"
    using that by (simp add: SharedBuffer_dtor_def SharedBuffer_drop_def)
  show ?thesis
    using p1 p2 p3 p4 by blast
qed

theorem SharedBuffer_refcount_invariant_witness:
  "reachable False 2 ex_two_holders \<and> (2 :: nat) < 2 ^ 32 \<and>
   sbufs ex_two_holders 1 = Some \<lparr>data = 1, m_size = 3, refcount = 2\<rparr> \<and>
   cells ex_two_holders 2 = Some 2 \<and> card (holders ex_two_holders 2) = 2 \<and>
   (\<exists>s'. SharedBuffer_dtor False 1 ex_two_holders = Inr s' \<and> cells s' 2 = Some 1 \<and>
      arrays s' = arrays ex_two_holders)"
proof -
  let ?b = "\<lparr>data = 1, m_size = 3, refcount = 2\<rparr>"
  have "step False init_state (SharedBuffer_new 0 3 (init_state :: u8 state))"
    by (rule SharedBuffer_new_step) (simp add: init_state_def)
  then have "step False init_state ex_one_holder"
    by (simp add: ex_one_holder_built)
  moreover have "dom (sbufs ex_one_holder) = {0}"
    by (auto simp: ex_one_holder_def split: if_splits)
  ultimately have r1: "reachable False 2 ex_one_holder"
    by (intro reachable_step [OF reachable_init]) simp_all
  have "step False ex_one_holder ex_two_holders"
    by (rule SharedBuffer_copy_ctor_step [OF _ ex_two_holders_built])
       (simp add: ex_one_holder_def)
  moreover have "dom (sbufs ex_two_holders) = {0, 1}"
    by (auto simp: ex_two_holders_def split: if_splits)
  ultimately have r2: "reachable False 2 ex_two_holders"
    by (intro reachable_step [OF r1]) simp_all
  have n: "(2 :: nat) < 2 ^ 32"
    by simp
  have b: "sbufs ex_two_holders 1 = Some ?b"
    by (simp add: ex_two_holders_def)
  have c: "cells ex_two_holders 2 = Some 2"
    by (simp add: ex_two_holders_def)
  note th = SharedBuffer_refcount_invariant [OF r2 n b,
      where ?s0.0 = ex_two_holders and t = 0 and ?b0.0 = ?b]
  have nz: "refcount ?b \<noteq> 0"
    by simp
  from mp [OF conjunct1 [OF conjunct2 [OF conjunct2 [OF th]]] nz] obtain c0 s' where
    s': "cells ex_two_holders (refcount ?b) = Some c0"
      "unat c0 = card (holders ex_two_holders (refcount ?b))"
      "SharedBuffer_dtor False 1 ex_two_holders = Inr s'"
      "if c0 = 1
       then cells s' = (cells ex_two_holders)(refcount ?b := None) \<and>
            arrays s' = (arrays ex_two_holders)(data ?b := None) \<and>
            (\<forall>j x. sbufs s' j = Some x \<longrightarrow>
               refcount x \<noteq> refcount ?b \<and> data x \<noteq> data ?b)
       else cells s' = (cells ex_two_holders)(refcount ?b \<mapsto> c0 - 1) \<and>
            arrays s' = arrays ex_two_holders"
    by blast
  have c0: "c0 = 2"
    using s'(1) c by simp
  have "card (holders ex_two_holders 2) = 2"
    using s'(2) c0 by simp
  moreover have "cells s' 2 = Some 1" "arrays s' = arrays ex_two_holders"
    using s'(4) c0 by simp_all
  ultimately have "card (holders ex_two_holders 2) = 2 \<and>
   (\<exists>s'. SharedBuffer_dtor False 1 ex_two_holders = Inr s' \<and> cells s' 2 = Some 1 \<and>
      arrays s' = arrays ex_two_holders)"
    using s'(3) by blast
  then show ?thesis
    using r2 n b c by blast
qed

section \<open>Conversions of buffers of fewer than \<open>2\<^sup>3\<^sup>2\<close> elements\<close>

text \<open>
  Below \<open>2\<^sup>3\<^sup>2\<close> elements the two conversions do what the specification says. Let
  \<open>buffer\<close> be a live \<^verbatim>\<open>Buffer\<close> whose block holds at least \<^verbatim>\<open>m_size\<close> elements. Converting
  it to a \<^verbatim>\<open>SharedBuffer\<close> and that to a \<^verbatim>\<open>Buffer\<close> succeeds; the result has the size and,
  at every index below it, the element of the original; the original and every block
  allocated before are untouched. For size 0 both results are empty and nothing is
  allocated; otherwise each conversion allocates a block that did not exist before it,
  and the three data pointers differ.
\<close>

lemma round_trip_in_range:
  assumes b: "bufs s buffer = Some b" and ne: "dest \<noteq> buffer"
    and small: "unat (Buffer.m_size b) < 2 ^ 32"
    and blk: "Buffer.m_size b \<noteq> 0 \<longrightarrow>
        (\<exists>xs. arrays s (Buffer.data b) = Some xs \<and> unat (Buffer.m_size b) \<le> length xs)"
    and hp: "heap_ok s"
  shows "\<exists>s1 s2 sb db.
      SharedBuffer_from_Buffer this buffer s = Inr s1 \<and> sbufs s1 this = Some sb \<and>
      SharedBuffer_to_Buffer this dest s1 = Inr s2 \<and> bufs s2 dest = Some db \<and>
      Buffer_getSize dest s2 = Inr (Buffer.m_size b) \<and>
      (\<forall>i. i < Buffer.m_size b \<longrightarrow> Buffer_index dest i s2 = Buffer_index buffer i s) \<and>
      bufs s2 buffer = Some b \<and>
      (\<forall>p. arrays s p \<noteq> None \<longrightarrow> arrays s2 p = arrays s p) \<and>
      (if Buffer.m_size b = 0
       then sb = \<lparr>data = 0, m_size = 0, refcount = 0\<rparr> \<and>
            db = \<lparr>Buffer.data = 0, Buffer.m_size = 0\<rparr> \<and>
            arrays s2 = arrays s \<and> cells s2 = cells s \<and> brk s2 = brk s
       else arrays s (data sb) = None \<and> arrays s1 (data sb) \<noteq> None \<and>
            arrays s1 (Buffer.data db) = None \<and> arrays s2 (Buffer.data db) \<noteq> None \<and>
            data sb \<noteq> Buffer.data b \<and> Buffer.data db \<noteq> data sb \<and>
            Buffer.data db \<noteq> Buffer.data b)"
proof (cases "Buffer.m_size b = 0")
  case True
  then show ?thesis
    using b ne
    by (simp add: SharedBuffer_from_Buffer_def SharedBuffer_from_span_def
        SharedBuffer_to_Buffer_def Buffer_from_span_def Buffer_getSize_def)
next
  case False
  let ?n = "Buffer.m_size b"
  from blk False obtain xs where xs: "arrays s (Buffer.data b) = Some xs" "unat ?n \<le> length xs"
    by blast
  have u: "unat (ucast ?n :: u32) = unat ?n"
    using small by (simp add: unat_ucast_down)
  have nz: "(ucast ?n :: u32) \<noteq> 0"
    using u False by (metis unat_eq_zero)
  have rt: "(ucast (ucast ?n :: u32) :: size_t) = ?n"
    using u by (simp add: word_unat_eq_iff unat_ucast_up)
  have le: "Buffer.data b \<le> brk s" "0 < Buffer.data b"
    using heap_okD_arrays [OF hp, of "Buffer.data b"] xs by simp_all
  have above: "arrays s p = None" if "brk s < p" for p
  proof (rule ccontr)
    assume "arrays s p \<noteq> None"
    from heap_okD_arrays [OF hp this] that show False by simp
  qed
  have fresh: "arrays s (brk s + 1) = None" "arrays s (brk s + 3) = None"
    by (simp_all add: above)
  let ?sb = "\<lparr>data = brk s + 1, m_size = ucast ?n, refcount = brk s + 2\<rparr>"
  let ?s1 = "s\<lparr>arrays := (arrays s)(brk s + 1 \<mapsto> take (unat ?n) xs),
      cells := (cells s)(brk s + 2 \<mapsto> 1), brk := brk s + 2,
      sbufs := (sbufs s)(this \<mapsto> ?sb)\<rparr>"
  have s1: "SharedBuffer_from_Buffer this buffer s = Inr ?s1"
    using b xs u nz
    by (simp add: SharedBuffer_from_Buffer_def SharedBuffer_from_span_def memcpy_src_def
        new_array_def new_u32_def Let_def)
  let ?db = "\<lparr>Buffer.data = brk s + 3, Buffer.m_size = ?n\<rparr>"
  let ?s2 = "?s1\<lparr>arrays := (arrays ?s1)(brk s + 3 \<mapsto> take (unat ?n) xs), brk := brk s + 3,
      bufs := (bufs s)(dest \<mapsto> ?db)\<rparr>"
  have e3: "brk s + 3 = Suc (Suc (Suc (brk s)))"
    by simp
  have s2: "SharedBuffer_to_Buffer this dest ?s1 = Inr ?s2"
    using xs u False rt
    by (simp add: SharedBuffer_to_Buffer_def Buffer_from_span_def memcpy_src_def
        new_array_def Let_def e3)
  have ix: "Buffer_index dest i ?s2 = Buffer_index buffer i s" if "i < ?n" for i
  proof -
    have "unat i < unat ?n"
      using that by (simp add: word_less_nat_alt)
    then show ?thesis
      using b xs le by (simp add: Buffer_index_def ne)
  qed
  have keep: "arrays ?s2 p = arrays s p" if "arrays s p \<noteq> None" for p
    using heap_okD_arrays [OF hp that] by simp
  show ?thesis
    using s1 s2 ix keep False b ne le fresh
    by (intro exI [of _ ?s1] exI [of _ ?s2] exI [of _ ?sb] exI [of _ ?db])
       (simp add: Buffer_getSize_def)
qed

end
